theory Spec2Isabelle
  imports Main "HOL-Library.Multiset"
begin

section \<open>Strings as the program uses them\<close>

text \<open>
  A Python \<open>str\<close> is a sequence of code points. It is modelled as a \<open>string\<close>, a list of
  characters, where a \<open>char\<close> is a code point below 256 (ASCII and the Latin-1 supplement),
  one \<open>char\<close> for each code point of the \<open>str\<close>; a \<open>str\<close> with a code point from 256 on has
  no counterpart in this type. On the 256 code points the functions below are Python's:
  the classes \<open>[A-Z]\<close> and \<open>[a-z]\<close> of a pattern are the ASCII letters, the class \<open>\d\<close> is
  the decimal digits (below 256 only \<open>0\<close> to \<open>9\<close>), white space is what \<open>str.isspace\<close> accepts,
  and \<open>str.lower\<close> maps each capital letter, ASCII or Latin-1, to its small letter.
\<close>

definition is_upper :: "char \<Rightarrow> bool" where
  "is_upper c = (65 \<le> (of_char c :: nat) \<and> (of_char c :: nat) \<le> 90)"

definition is_lower :: "char \<Rightarrow> bool" where
  "is_lower c = (97 \<le> (of_char c :: nat) \<and> (of_char c :: nat) \<le> 122)"

definition is_digit :: "char \<Rightarrow> bool" where
  "is_digit c = (48 \<le> (of_char c :: nat) \<and> (of_char c :: nat) \<le> 57)"

text \<open>\<open>str.isspace\<close> below 256: tab, line feed, vertical tab, form feed, carriage return
  (9 to 13), the four separators 0x1c to 0x1f, the space, the next-line control 0x85 and the
  no-break space 0xa0. \<open>str.split()\<close> and \<open>str.strip()\<close> use this class.\<close>

definition is_space :: "char \<Rightarrow> bool" where
  "is_space c = ((9 \<le> (of_char c :: nat) \<and> (of_char c :: nat) \<le> 13)
                 \<or> (28 \<le> (of_char c :: nat) \<and> (of_char c :: nat) \<le> 32)
                 \<or> (of_char c :: nat) = 133 \<or> (of_char c :: nat) = 160)"

text \<open>The code points below 256 that \<open>str.lower\<close> changes: \<open>A\<close> to \<open>Z\<close> and the Latin-1
  capitals 0xc0 to 0xde without the multiplication sign 0xd7; each goes to the code point 32
  higher. Every other code point below 256 is its own lowercase.\<close>

definition has_lowercase :: "char \<Rightarrow> bool" where
  "has_lowercase c =
     (is_upper c
      \<or> (192 \<le> (of_char c :: nat) \<and> (of_char c :: nat) \<le> 222 \<and> (of_char c :: nat) \<noteq> 215))"

definition lower_char :: "char \<Rightarrow> char" where
  "lower_char c = (if has_lowercase c then char_of ((of_char c :: nat) + 32) else c)"

text \<open>\<open>s.lower()\<close>\<close>

definition lower :: "string \<Rightarrow> string" where
  "lower s = map lower_char s"

text \<open>\<open>s.startswith(p)\<close>\<close>

fun startswith :: "string \<Rightarrow> string \<Rightarrow> bool" where
  "startswith s [] = True"
| "startswith [] (p # ps) = False"
| "startswith (c # cs) (p # ps) = (c = p \<and> startswith cs ps)"

text \<open>\<open>sub in s\<close>\<close>

fun contains :: "string \<Rightarrow> string \<Rightarrow> bool" where
  "contains sub [] = (sub = [])"
| "contains sub (c # cs) = (startswith (c # cs) sub \<or> contains sub cs)"

text \<open>\<open>s.strip()\<close>\<close>

definition strip :: "string \<Rightarrow> string" where
  "strip s = rev (dropWhile is_space (rev (dropWhile is_space s)))"

text \<open>\<open>s.replace(' ', '')\<close>\<close>

definition remove_spaces :: "string \<Rightarrow> string" where
  "remove_spaces s = filter (\<lambda>c. c \<noteq> CHR '' '') s"

text \<open>\<open>s.split(sep)\<close> for a one-character separator: the pieces between the separators,
  always at least one piece.\<close>

fun split_on :: "char \<Rightarrow> string \<Rightarrow> string list" where
  "split_on sep [] = [[]]"
| "split_on sep (c # cs) =
     (if c = sep then [] # split_on sep cs
      else (case split_on sep cs of
              [] \<Rightarrow> [[c]]
            | p # ps \<Rightarrow> (c # p) # ps))"

text \<open>\<open>s.split()\<close>: the maximal runs of characters that are not white space; none for a
  string of white space only.\<close>

fun split_ws :: "string \<Rightarrow> string list" where
  "split_ws [] = []"
| "split_ws (c # cs) =
     (if is_space c then split_ws cs
      else (case cs of
              [] \<Rightarrow> [[c]]
            | d # ds \<Rightarrow>
                if is_space d then [c] # split_ws cs
                else (case split_ws cs of
                        [] \<Rightarrow> [[c]]
                      | t # ts \<Rightarrow> (c # t) # ts)))"

text \<open>\<open>sep.join(xs)\<close>\<close>

fun join :: "string \<Rightarrow> string list \<Rightarrow> string" where
  "join sep [] = []"
| "join sep [x] = x"
| "join sep (x # y # ys) = x @ sep @ join sep (y # ys)"

text \<open>\<open>re.search(r'\d+', text)\<close>: the first maximal run of decimal digits, if the text
  has a digit (the class \<open>\d\<close> holds the decimal digits; below 256 these are \<open>0\<close> to
  \<open>9\<close>).\<close>

definition search_digits :: "string \<Rightarrow> string option" where
  "search_digits text =
     (case dropWhile (\<lambda>c. \<not> is_digit c) text of
        [] \<Rightarrow> None
      | d # ds \<Rightarrow> Some (takeWhile is_digit (d # ds)))"

text \<open>The value of a string of digits; Python integers are unbounded.\<close>

definition digit_val :: "char \<Rightarrow> int" where
  "digit_val c = int ((of_char c :: nat) - 48)"

definition int_of_digits :: "string \<Rightarrow> int" where
  "int_of_digits s = foldl (\<lambda>acc c. 10 * acc + digit_val c) 0 s"

text \<open>\<open>str(n)\<close> of a natural number.\<close>

fun decimal :: "nat \<Rightarrow> string" where
  "decimal n =
     (if n < 10 then [char_of (48 + n)]
      else decimal (n div 10) @ [char_of (48 + n mod 10)])"

text \<open>
  \<open>re.findall(r'[A-Z][a-z]+ [A-Z][a-z]+', s)\<close>. The pattern has no alternative: after the
  capital, the greedy \<open>[a-z]+\<close> takes the whole run of small letters (a shorter run would be
  followed by a small letter, never by the space), so a match at a position is decided by
  reading on. \<open>match_word\<close> reads \<open>[A-Z][a-z]+\<close> and gives the word and the rest;
  \<open>match_name\<close> reads the whole pattern; \<open>findall_names\<close> collects the matches from left to
  right, resuming after each match.
\<close>

fun match_word :: "string \<Rightarrow> (string \<times> string) option" where
  "match_word [] = None"
| "match_word (c # cs) =
     (if is_upper c \<and> takeWhile is_lower cs \<noteq> []
      then Some (c # takeWhile is_lower cs, dropWhile is_lower cs)
      else None)"

definition match_name :: "string \<Rightarrow> (string \<times> string) option" where
  "match_name s =
     (case match_word s of
        None \<Rightarrow> None
      | Some (w1, r1) \<Rightarrow>
          (case r1 of
             [] \<Rightarrow> None
           | sp # r2 \<Rightarrow>
               if sp = CHR '' '' then
                 (case match_word r2 of
                    None \<Rightarrow> None
                  | Some (w2, r3) \<Rightarrow> Some (w1 @ [sp] @ w2, r3))
               else None))"

fun findall_names :: "string \<Rightarrow> string list" where
  "findall_names [] = []"
| "findall_names (c # cs) =
     (case match_name (c # cs) of
        Some (m, rest) \<Rightarrow> m # findall_names (drop (length m - 1) cs)
      | None \<Rightarrow> findall_names cs)"

section \<open>Values, exceptions and the outside world\<close>

text \<open>
  What \<open>json.loads\<close> returns: \<open>None\<close>, a \<open>bool\<close>, an \<open>int\<close>, a \<open>float\<close>, a \<open>str\<close>,
  a \<open>list\<close> or a \<open>dict\<close> (its items in iteration order). \<open>JFloat m e\<close> is the float
  written \<open>m\<close> times ten to the \<open>e\<close>; the program only tests a float for being zero (any
  non-zero one can stand for a \<open>NaN\<close> or an infinity). The fields of a lead that the program
  fills from decoded JSON hold such a value.
\<close>

datatype json =
    JNull
  | JBool bool
  | JInt int
  | JFloat int int
  | JStr string
  | JArr "json list"
  | JObj "(string \<times> json) list"

text \<open>Python's truth value of a decoded value.\<close>

fun truthy :: "json \<Rightarrow> bool" where
  "truthy JNull = False"
| "truthy (JBool b) = b"
| "truthy (JInt i) = (i \<noteq> 0)"
| "truthy (JFloat m e) = (m \<noteq> 0)"
| "truthy (JStr s) = (s \<noteq> [])"
| "truthy (JArr xs) = (xs \<noteq> [])"
| "truthy (JObj kvs) = (kvs \<noteq> [])"

fun type_name :: "json \<Rightarrow> string" where
  "type_name JNull = ''NoneType''"
| "type_name (JBool b) = ''bool''"
| "type_name (JInt i) = ''int''"
| "type_name (JFloat m e) = ''float''"
| "type_name (JStr s) = ''str''"
| "type_name (JArr xs) = ''list''"
| "type_name (JObj kvs) = ''dict''"

text \<open>An exception: its class and \<open>str(e)\<close>.\<close>

datatype exn = Exn (exn_class: string) (exn_str: string)

definition attribute_error :: "json \<Rightarrow> string \<Rightarrow> exn" where
  "attribute_error v attr =
     Exn ''AttributeError''
       ([CHR 0x27] @ type_name v @ [CHR 0x27] @ '' object has no attribute ''
         @ [CHR 0x27] @ attr @ [CHR 0x27])"

definition not_iterable :: "json \<Rightarrow> exn" where
  "not_iterable v =
     Exn ''TypeError'' ([CHR 0x27] @ type_name v @ [CHR 0x27] @ '' object is not iterable'')"

text \<open>
  \<open>int(s)\<close> on a run of digits. CPython converts a run of at most 4300 digits (the default
  of \<open>sys.set_int_max_str_digits\<close>, which the program does not change) and raises
  \<open>ValueError\<close> on a longer one; the message names the number of digits.
\<close>

definition py_int :: "string \<Rightarrow> exn + int" where
  "py_int s =
     (if length s > 4300
      then Inl (Exn ''ValueError''
                 (''Exceeds the limit (4300 digits) for integer string conversion: value has ''
                  @ decimal (length s)
                  @ '' digits; use sys.set_int_max_str_digits() to increase the limit''))
      else Inr (int_of_digits s))"

text \<open>The three places that call the extraction model, and the text each sends: the prompt
  is a fixed template around these values.\<close>

datatype prompt =
    NamesPrompt "string list"
  | EnrichPrompt json string "string list" "string list" "string list"
  | ScorePrompt string string string "string list"

text \<open>The web searches, by their query templates:
  \<open>"SOT toxicology conference speakers 2024"\<close>,
  \<open>'"{name}" "{company}" linkedin'\<close>, \<open>'"{name}" "{company}" email'\<close>,
  \<open>'"{company}" headquarters location'\<close> and
  \<open>'"{company}" series funding OR raised OR IPO'\<close>.\<close>

datatype query =
    ConferenceQuery
  | LinkedinQuery json string
  | EmailQuery json string
  | HeadquartersQuery string
  | FundingQuery string

text \<open>One author of an Entrez record: the optional \<open>LastName\<close> and \<open>ForeName\<close>, and
  \<open>AffiliationInfo\<close> as the list of its entries' optional \<open>Affiliation\<close> (an absent
  \<open>AffiliationInfo\<close> is the empty list: the code treats both alike).\<close>

record author_xml =
  LastName :: "string option"
  ForeName :: "string option"
  AffiliationInfo :: "string option list"

text \<open>\<open>paper['MedlineCitation']['Article']\<close>: the title and the optional \<open>AuthorList\<close>.\<close>

record article_xml =
  ArticleTitle :: string
  AuthorList :: "author_xml list option"

text \<open>
  The outside world of one run. Every external call either returns or raises:
  \<^item> \<open>MODEL\<close> is set or \<open>None\<close>;
  \<^item> \<open>generate_content w n p\<close> is \<open>response.text\<close> of the \<open>n\<close>-th call of
    \<open>MODEL.generate_content\<close> (counted from 0) with prompt \<open>p\<close>, or what the call or
    \<open>.text\<close> raises;
  \<^item> \<open>json_loads\<close> is \<open>json.loads\<close>;
  \<^item> \<open>ddgs_text w n q k\<close> is the list of the bodies of the \<open>n\<close>-th web search, for query
    \<open>q\<close> with \<open>max_results = k\<close>;
  \<^item> \<open>esearch w term retmax\<close> is the \<open>IdList\<close> of the PubMed search, \<open>efetch w pmid\<close> is
    \<open>records['PubmedArticle']\<close> of the fetched record;
  \<^item> \<open>set_order\<close> is the order in which \<open>list(set(names))\<close> lists the distinct names
    (Python leaves it unspecified);
  \<^item> the two environment variables the pipeline checks are set or not.
\<close>

record world =
  MODEL :: bool
  generate_content :: "nat \<Rightarrow> prompt \<Rightarrow> exn + string"
  json_loads :: "string \<Rightarrow> exn + json"
  ddgs_text :: "nat \<Rightarrow> query \<Rightarrow> nat \<Rightarrow> exn + string list"
  esearch :: "string \<Rightarrow> nat \<Rightarrow> exn + string list"
  efetch :: "string \<Rightarrow> exn + article_xml list"
  set_order :: "string list \<Rightarrow> string list"
  GEMINI_API_KEY :: bool
  EMAIL :: bool

text \<open>What \<open>list(set(names))\<close> guarantees of its order: each distinct name once.\<close>

definition set_order_ok :: "world \<Rightarrow> bool" where
  "set_order_ok w = (\<forall>xs. distinct (set_order w xs) \<and> set (set_order w xs) = set xs)"

datatype site = Names | Enrich | Score

datatype event = Call site | Exhausted

text \<open>
  The state of a run: the global \<open>quota_exceeded\<close>, the number of web searches made so far,
  and the log of what happened to the extraction model: \<open>Call s\<close> when
  \<open>MODEL.generate_content\<close> is invoked at site \<open>s\<close>, \<open>Exhausted\<close> when an \<open>except\<close> branch
  sets \<open>quota_exceeded = True\<close>. The log is not in the program; it records its trace.
\<close>

record state =
  quota_exceeded :: bool
  searches :: nat
  events :: "event list"

definition initial :: state where
  "initial = \<lparr>quota_exceeded = False, searches = 0, events = []\<rparr>"

fun is_call :: "event \<Rightarrow> bool" where
  "is_call (Call s) = True"
| "is_call Exhausted = False"

definition llm_calls :: "state \<Rightarrow> nat" where
  "llm_calls st = length (filter is_call (events st))"

text \<open>\<open>ddgs.text(query, max_results=k)\<close> and the list of the results' bodies.\<close>

definition search :: "world \<Rightarrow> query \<Rightarrow> nat \<Rightarrow> state \<Rightarrow> (exn + string list) \<times> state" where
  "search w q k st = (ddgs_text w (searches st) q k, st\<lparr>searches := Suc (searches st)\<rparr>)"

text \<open>\<open>MODEL.generate_content(prompt)\<close> followed by \<open>response.text\<close>.\<close>

definition generate :: "world \<Rightarrow> site \<Rightarrow> prompt \<Rightarrow> state \<Rightarrow> (exn + string) \<times> state" where
  "generate w s p st =
     (generate_content w (llm_calls st) p, st\<lparr>events := events st @ [Call s]\<rparr>)"

text \<open>The body of every \<open>except Exception as e\<close> of the program, apart from the values it
  resets: \<open>if '429' in str(e) or 'quota' in str(e).lower(): quota_exceeded = True\<close>.\<close>

definition quota_signal :: "exn \<Rightarrow> bool" where
  "quota_signal e = (contains ''429'' (exn_str e) \<or> contains ''quota'' (lower (exn_str e)))"

definition on_error :: "exn \<Rightarrow> state \<Rightarrow> state" where
  "on_error e st =
     (if quota_signal e
      then st\<lparr>quota_exceeded := True, events := events st @ [Exhausted]\<rparr>
      else st)"

text \<open>\<open>text = response.text.strip()\<close>, then
  \<open>if text.startswith('```json'): text = text[7:-3].strip()\<close>.\<close>

definition unfence :: "string \<Rightarrow> string" where
  "unfence t =
     (let text = strip t in
      if startswith text ''```json''
      then strip (drop 7 (take (length text - 3) text))
      else text)"

section \<open>Leads\<close>

text \<open>
  A lead is a \<open>dict\<close>; its keys are the fields below. \<open>has_recent_paper\<close>, \<open>linkedin\<close>,
  \<open>email\<close> and \<open>score\<close> are absent (\<open>None\<close>) until the pipeline sets them. \<open>name\<close> and
  \<open>location\<close> can come from decoded JSON, so they hold a \<open>json\<close> value, as \<open>linkedin\<close> and
  \<open>email\<close> do.
\<close>

record person =
  name :: json
  title :: string
  company :: string
  location :: json
  source :: string
  has_recent_paper :: "bool option"
  linkedin :: "json option"
  email :: "json option"
  score :: "int option"

section \<open>Scoring\<close>

text \<open>The model's part of \<open>calculate_score\<close> (lines 221-254): the first integer of the
  reply, or 0 when there is none, when the call or the conversion fails (the \<open>except\<close>
  branch), or when no call is made.\<close>

definition model_score :: "world \<Rightarrow> prompt \<Rightarrow> state \<Rightarrow> int \<times> state" where
  "model_score w p st =
     (if MODEL w \<and> \<not> quota_exceeded st then
        (case generate w Score p st of
           (Inr response_text, st1) \<Rightarrow>
             (case search_digits (strip response_text) of
                Some score_match \<Rightarrow>
                  (case py_int score_match of
                     Inr value \<Rightarrow> (value, st1)
                   | Inl e \<Rightarrow> (0, on_error e st1))
              | None \<Rightarrow> (0, st1))
         | (Inl e, st1) \<Rightarrow> (0, on_error e st1))
      else (0, st))"

text \<open>The rules after the comment \<open># Fallback\<close> (lines 256-267), in the order of the code.\<close>

definition fallback :: "int \<Rightarrow> string \<Rightarrow> string \<Rightarrow> string list \<Rightarrow> bool option \<Rightarrow> int" where
  "fallback score0 ttl loc funding_snippets recent =
     (let score = score0;
          score = (if list_ex (\<lambda>word. contains word ttl)
                        [''toxicology'', ''safety'', ''hepatic'', ''3d'', ''preclinical'',
                         ''director'', ''head'']
                   then score + 30 else score);
          score = (if list_ex (\<lambda>s. contains ''series'' (lower s) \<or> contains ''raised'' (lower s))
                        funding_snippets
                   then score + 20 else score);
          score = score + 15;
          score = (if list_ex (\<lambda>hub. contains hub (lower loc))
                        [''boston'', ''cambridge'', ''san francisco'', ''basel'', ''london'']
                   then score + 10 else score);
          score = (if recent = Some True then score + 40 else score)
      in min score 100)"

text \<open>\<open>calculate_score(person)\<close>. \<open>person.get('location', '').lower()\<close> raises when the
  location is not a string; the search is outside every \<open>try\<close>, so what it raises leaves the
  function.\<close>

definition calculate_score :: "world \<Rightarrow> person \<Rightarrow> state \<Rightarrow> (exn + int) \<times> state" where
  "calculate_score w p st =
     (let title = lower (title p);
          company = lower (company p)
      in case location p of
           JStr l \<Rightarrow>
             (let location = lower l in
              case search w (FundingQuery company) 5 st of
                (Inl e, st1) \<Rightarrow> (Inl e, st1)
              | (Inr funding_snippets, st1) \<Rightarrow>
                  (case model_score w (ScorePrompt company title location funding_snippets) st1 of
                     (score0, st2) \<Rightarrow>
                       (Inr (fallback score0 title location funding_snippets (has_recent_paper p)),
                        st2)))
         | v \<Rightarrow> (Inl (attribute_error v ''lower''), st))"

section \<open>Identification\<close>

text \<open>The entries of \<open>authors\<close> and the result of \<open>fetch_paper_details\<close>. (The keys
  \<open>name\<close>, \<open>location\<close> and \<open>title\<close> of these dictionaries are prefixed here, a lead having
  fields of the same names.)\<close>

record author =
  author_name :: string
  affiliation :: string
  author_location :: string

record paper =
  pmid :: string
  paper_title :: string
  authors :: "author list"

text \<open>The body of the loop over \<open>AuthorList\<close> (lines 59-68): an author without both names is
  skipped.\<close>

definition author_details :: "author_xml \<Rightarrow> author option" where
  "author_details a =
     (case (LastName a, ForeName a) of
        (Some family, Some given) \<Rightarrow>
          (let affil = (case AffiliationInfo a of
                          [] \<Rightarrow> []
                        | info # infos \<Rightarrow> (case info of None \<Rightarrow> [] | Some x \<Rightarrow> x));
               parts = split_on CHR '','' affil
           in Some \<lparr>author_name = given @ '' '' @ family,
                    affiliation = affil,
                    author_location =
                      (if affil \<noteq> [] \<and> length parts > 1
                       then strip (parts ! (length parts - 2)) @ '', '' @ strip (last parts)
                       else ''Unknown'')\<rparr>)
      | other \<Rightarrow> None)"

text \<open>\<open>fetch_paper_details(pmid)\<close>: \<open>records['PubmedArticle'][0]\<close> raises on an empty list,
  \<open>['AuthorList']\<close> on an article without one, and what \<open>Entrez.efetch\<close> or \<open>Entrez.read\<close>
  raises is not caught either.\<close>

definition fetch_paper_details :: "world \<Rightarrow> string \<Rightarrow> exn + paper" where
  "fetch_paper_details w p =
     (case efetch w p of
        Inl e \<Rightarrow> Inl e
      | Inr [] \<Rightarrow> Inl (Exn ''IndexError'' ''list index out of range'')
      | Inr (article # articles) \<Rightarrow>
          (case AuthorList article of
             None \<Rightarrow> Inl (Exn ''KeyError'' ([CHR 0x27] @ ''AuthorList'' @ [CHR 0x27]))
           | Some author_list \<Rightarrow>
               Inr \<lparr>pmid = p, paper_title = ArticleTitle article,
                    authors = List.map_filter author_details author_list\<rparr>))"

text \<open>\<open>search_pubmed(keywords, max_results)\<close>\<close>

definition search_pubmed :: "world \<Rightarrow> string list \<Rightarrow> nat \<Rightarrow> exn + string list" where
  "search_pubmed w kws max_results =
     esearch w (''('' @ join '' OR '' kws @ '') AND (2023[DP] : 2025[DP])'') max_results"

text \<open>The extraction model's part of \<open>scrape_conference_attendees\<close> (lines 84-105).\<close>

definition model_names :: "world \<Rightarrow> string list \<Rightarrow> state \<Rightarrow> json \<times> state" where
  "model_names w snippets st =
     (if MODEL w \<and> \<not> quota_exceeded st then
        (case generate w Names (NamesPrompt snippets) st of
           (Inr response_text, st1) \<Rightarrow>
             (case json_loads w (unfence response_text) of
                Inr names \<Rightarrow> (names, st1)
              | Inl e \<Rightarrow> (JArr [], on_error e st1))
         | (Inl e, st1) \<Rightarrow> (JArr [], on_error e st1))
      else (JArr [], st))"

text \<open>
  The block under \<open>if not names:\<close> (lines 107-110), entered with a value that is false. On
  a list (the empty one, then) it collects the pattern's matches of every snippet and keeps 20
  of the distinct ones. A decoded value that is false
  without being a list has no \<open>extend\<close>: the loop raises at the first snippet; with no snippet
  at all, \<open>set(names)\<close> raises unless \<open>names\<close> is the empty string or the empty dictionary.
\<close>

definition heuristic_names :: "world \<Rightarrow> json \<Rightarrow> string list \<Rightarrow> exn + json" where
  "heuristic_names w names snippets =
     (case names of
        JArr xs \<Rightarrow>
          Inr (JArr (map JStr (take 20 (set_order w (concat (map findall_names snippets))))))
      | v \<Rightarrow>
          if snippets \<noteq> [] then Inl (attribute_error v ''extend'')
          else (case v of
                  JStr s \<Rightarrow> Inr (JArr [])
                | JObj kvs \<Rightarrow> Inr (JArr [])
                | u \<Rightarrow> Inl (not_iterable u)))"

text \<open>\<open>for name in names\<close>: the elements of a list, the keys of a dictionary, the characters
  of a string; anything else is not iterable.\<close>

fun iterate :: "json \<Rightarrow> exn + json list" where
  "iterate (JArr xs) = Inr xs"
| "iterate (JObj kvs) = Inr (map (\<lambda>kv. JStr (fst kv)) kvs)"
| "iterate (JStr s) = Inr (map (\<lambda>c. JStr [c]) s)"
| "iterate v = Inl (not_iterable v)"

text \<open>The dictionary built for one name (lines 114-120).\<close>

definition attendee :: "json \<Rightarrow> person" where
  "attendee n =
     \<lparr>name = n, title = ''Speaker'', company = ''Unknown'', location = JStr ''Unknown'',
      source = ''Conference'', has_recent_paper = None, linkedin = None, email = None,
      score = None\<rparr>"

text \<open>\<open>scrape_conference_attendees()\<close>\<close>

definition scrape_conference_attendees :: "world \<Rightarrow> state \<Rightarrow> (exn + person list) \<times> state" where
  "scrape_conference_attendees w st =
     (case search w ConferenceQuery 10 st of
        (Inl e, st1) \<Rightarrow> (Inl e, st1)
      | (Inr snippets, st1) \<Rightarrow>
          (case model_names w snippets st1 of
             (names0, st2) \<Rightarrow>
               (case (if \<not> truthy names0 then heuristic_names w names0 snippets
                      else Inr names0) of
                  Inl e \<Rightarrow> (Inl e, st2)
                | Inr names \<Rightarrow>
                    (case iterate names of
                       Inl e \<Rightarrow> (Inl e, st2)
                     | Inr ns \<Rightarrow> (Inr (map attendee ns), st2)))))"

text \<open>The lead built for one author of a paper (lines 310-317).\<close>

definition citation_lead :: "author \<Rightarrow> person" where
  "citation_lead a =
     \<lparr>name = JStr (author_name a), title = ''Researcher'',
      company = (if affiliation a \<noteq> [] then hd (split_on CHR '','' (affiliation a))
                 else ''Unknown''),
      location = JStr (author_location a), source = ''PubMed'',
      has_recent_paper = Some True, linkedin = None, email = None, score = None\<rparr>"

text \<open>The loop over \<open>pmids\<close> (lines 306-318), \<open>leads\<close> being the list built so far: nothing
  catches what \<open>fetch_paper_details\<close> raises.\<close>

fun citation_leads :: "world \<Rightarrow> person list \<Rightarrow> string list \<Rightarrow> exn + person list" where
  "citation_leads w leads [] = Inr leads"
| "citation_leads w leads (p # pmids) =
     (case fetch_paper_details w p of
        Inl e \<Rightarrow> Inl e
      | Inr paper \<Rightarrow> citation_leads w (leads @ map citation_lead (authors paper)) pmids)"

text \<open>The list \<open>keywords\<close> of stage 1 (line 302).\<close>

definition topic_keywords :: "string list" where
  "topic_keywords = [''Drug-Induced Liver Injury'', ''3D cell culture'', ''Organ-on-chip'',
                     ''Hepatic spheroids'', ''Investigative Toxicology'']"

text \<open>Stage 1 of \<open>run_biotech_pipeline\<close> (lines 299-324).\<close>

definition identification :: "world \<Rightarrow> state \<Rightarrow> (exn + person list) \<times> state" where
  "identification w st =
     (case search_pubmed w topic_keywords 30 of
        Inl e \<Rightarrow> (Inl e, st)
      | Inr pmids \<Rightarrow>
          (case citation_leads w [] pmids of
             Inl e \<Rightarrow> (Inl e, st)
           | Inr leads \<Rightarrow>
               (case scrape_conference_attendees w st of
                  (Inl e, st1) \<Rightarrow> (Inl e, st1)
                | (Inr conf_leads, st1) \<Rightarrow>
                    (Inr (leads @ map (\<lambda>lead. lead\<lparr>has_recent_paper := Some False\<rparr>) conf_leads),
                     st1))))"

section \<open>Enrichment\<close>

text \<open>\<open>data.get(key)\<close> on a dictionary.\<close>

definition dict_get :: "(string \<times> json) list \<Rightarrow> string \<Rightarrow> json" where
  "dict_get kvs k = (case map_of kvs k of Some v \<Rightarrow> v | None \<Rightarrow> JNull)"

text \<open>The extraction model's part of \<open>enrich_person\<close> (lines 149-184): the values of
  \<open>linkedin\<close>, \<open>email\<close> and \<open>location\<close>.\<close>

definition model_contact :: "world \<Rightarrow> prompt \<Rightarrow> state \<Rightarrow> (json \<times> json \<times> json) \<times> state" where
  "model_contact w p st =
     (if MODEL w \<and> \<not> quota_exceeded st then
        (case generate w Enrich p st of
           (Inr response_text, st1) \<Rightarrow>
             (case json_loads w (unfence response_text) of
                Inr (JObj kvs) \<Rightarrow>
                  ((dict_get kvs ''linkedin'', dict_get kvs ''email'', dict_get kvs ''location''),
                   st1)
              | Inr v \<Rightarrow> ((JNull, JNull, JNull), on_error (attribute_error v ''get'') st1)
              | Inl e \<Rightarrow> ((JNull, JNull, JNull), on_error e st1))
         | (Inl e, st1) \<Rightarrow> ((JNull, JNull, JNull), on_error e st1))
      else ((JNull, JNull, JNull), st))"

text \<open>\<open>f"https://linkedin.com/in/{name.replace(' ', '').lower()}"\<close>\<close>

definition synth_linkedin :: "json \<Rightarrow> exn + json" where
  "synth_linkedin n =
     (case n of
        JStr s \<Rightarrow> Inr (JStr (''https://linkedin.com/in/'' @ lower (remove_spaces s)))
      | v \<Rightarrow> Inl (attribute_error v ''replace''))"

text \<open>The f-string of line 187: \<open>name.split()[0].lower()\<close>, a dot,
  \<open>name.split()[-1].lower()\<close>, an at sign, \<open>company.replace(' ', '').lower()\<close> and
  \<open>.com\<close>; \<open>name.split()[0]\<close> raises on a name without a token.\<close>

definition synth_email :: "json \<Rightarrow> string \<Rightarrow> exn + json" where
  "synth_email n c =
     (case n of
        JStr s \<Rightarrow>
          (case split_ws s of
             [] \<Rightarrow> Inl (Exn ''IndexError'' ''list index out of range'')
           | t # ts \<Rightarrow>
               Inr (JStr (lower t @ ''.'' @ lower (last (t # ts)) @ ''@''
                          @ lower (remove_spaces c) @ ''.com'')))
      | v \<Rightarrow> Inl (attribute_error v ''split''))"

text \<open>\<open>enrich_person(person)\<close>. \<open>x or y\<close> evaluates \<open>y\<close> only when \<open>x\<close> is false.\<close>

definition enrich_person :: "world \<Rightarrow> person \<Rightarrow> state \<Rightarrow> (exn + person) \<times> state" where
  "enrich_person w p st =
     (let n = name p; c = company p in
      case search w (LinkedinQuery n c) 5 st of
        (Inl e, st1) \<Rightarrow> (Inl e, st1)
      | (Inr linkedin_snippets, st1) \<Rightarrow>
      (case search w (EmailQuery n c) 5 st1 of
        (Inl e, st2) \<Rightarrow> (Inl e, st2)
      | (Inr email_snippets, st2) \<Rightarrow>
      (case search w (HeadquartersQuery c) 3 st2 of
        (Inl e, st3) \<Rightarrow> (Inl e, st3)
      | (Inr location_snippets, st3) \<Rightarrow>
      (case model_contact w
              (EnrichPrompt n c linkedin_snippets email_snippets location_snippets) st3 of
        ((li, em, lo), st4) \<Rightarrow>
      (case (if truthy li then Inr li else synth_linkedin n) of
        Inl e \<Rightarrow> (Inl e, st4)
      | Inr li' \<Rightarrow>
      (case (if truthy em then Inr em else synth_email n c) of
        Inl e \<Rightarrow> (Inl e, st4)
      | Inr em' \<Rightarrow>
          (Inr (p\<lparr>linkedin := Some li', email := Some em',
                  location := (if truthy lo then lo else location p)\<rparr>),
           st4)))))))"

text \<open>The loop of stage 2 (lines 335-340) over \<open>leads[:30]\<close>, \<open>enriched_leads\<close> being the
  list built so far.\<close>

fun enrich_loop :: "world \<Rightarrow> person list \<Rightarrow> person list \<Rightarrow> state \<Rightarrow> (exn + person list) \<times> state" where
  "enrich_loop w enriched_leads [] st = (Inr enriched_leads, st)"
| "enrich_loop w enriched_leads (lead # rest) st =
     (case enrich_person w lead st of
        (Inl e, st1) \<Rightarrow> (Inl e, st1)
      | (Inr enriched, st1) \<Rightarrow> enrich_loop w (enriched_leads @ [enriched]) rest st1)"

definition enrichment :: "world \<Rightarrow> person list \<Rightarrow> state \<Rightarrow> (exn + person list) \<times> state" where
  "enrichment w leads st = enrich_loop w [] (take 30 leads) st"

section \<open>Ranking\<close>

text \<open>\<open>for lead in enriched_leads: lead['score'] = calculate_score(lead)\<close>\<close>

fun score_loop :: "world \<Rightarrow> person list \<Rightarrow> state \<Rightarrow> (exn + person list) \<times> state" where
  "score_loop w [] st = (Inr [], st)"
| "score_loop w (lead # rest) st =
     (case calculate_score w lead st of
        (Inl e, st1) \<Rightarrow> (Inl e, st1)
      | (Inr s, st1) \<Rightarrow>
          (case score_loop w rest st1 of
             (Inl e, st2) \<Rightarrow> (Inl e, st2)
           | (Inr scored, st2) \<Rightarrow> (Inr (lead\<lparr>score := Some s\<rparr> # scored), st2)))"

text \<open>The sort key \<open>x['score']\<close>, read where the key is present.\<close>

definition score_key :: "person \<Rightarrow> int" where
  "score_key x = (case score x of Some s \<Rightarrow> s | None \<Rightarrow> 0)"

text \<open>
  \<open>enriched_leads.sort(key=lambda x: x['score'], reverse=True)\<close>. The key raises on a lead
  without a score. CPython's \<open>list.sort\<close> is a stable sort, and with \<open>reverse=True\<close> it
  reverses the list, sorts it stably in ascending order and reverses the result;
  \<open>sort_key\<close> is the library's stable insertion sort.
\<close>

definition sort_by_score :: "person list \<Rightarrow> exn + person list" where
  "sort_by_score leads =
     (if list_ex (\<lambda>x. score x = None) leads
      then Inl (Exn ''KeyError'' ([CHR 0x27] @ ''score'' @ [CHR 0x27]))
      else Inr (rev (sort_key score_key (rev leads))))"

text \<open>Stage 3 of \<open>run_biotech_pipeline\<close> (lines 343-350).\<close>

definition ranking :: "world \<Rightarrow> person list \<Rightarrow> state \<Rightarrow> (exn + person list) \<times> state" where
  "ranking w enriched_leads st =
     (case score_loop w enriched_leads st of
        (Inl e, st1) \<Rightarrow> (Inl e, st1)
      | (Inr scored, st1) \<Rightarrow>
          (case sort_by_score scored of
             Inl e \<Rightarrow> (Inl e, st1)
           | Inr ranked \<Rightarrow> (Inr ranked, st1)))"

text \<open>\<open>[lead for lead in enriched_leads if lead['score'] >= min_score]\<close> (line 367)\<close>

definition filtered_leads :: "int \<Rightarrow> person list \<Rightarrow> person list" where
  "filtered_leads min_score enriched_leads = filter (\<lambda>lead. score_key lead \<ge> min_score) enriched_leads"

section \<open>The pipeline\<close>

text \<open>
  \<open>run_biotech_pipeline()\<close>, the second definition of that name (line 280), up to the ranked
  list that the dashboard then shows: \<open>None\<close> when a required setting is missing and the
  function returns before stage 1.
\<close>

definition run_biotech_pipeline :: "world \<Rightarrow> state \<Rightarrow> (exn + person list option) \<times> state" where
  "run_biotech_pipeline w st =
     (if \<not> GEMINI_API_KEY w then (Inr None, st)
      else if \<not> EMAIL w then (Inr None, st)
      else
        (case identification w st of
           (Inl e, st1) \<Rightarrow> (Inl e, st1)
         | (Inr leads, st1) \<Rightarrow>
             (case enrichment w leads st1 of
                (Inl e, st2) \<Rightarrow> (Inl e, st2)
              | (Inr enriched_leads, st2) \<Rightarrow>
                  (case ranking w enriched_leads st2 of
                     (Inl e, st3) \<Rightarrow> (Inl e, st3)
                   | (Inr ranked, st3) \<Rightarrow> (Inr (Some ranked), st3)))))"

section \<open>The rule set and the trace, as the specification words them\<close>

text \<open>The five rules of the heuristic score: the title holds one of the role keywords, a
  funding snippet holds a funding-event keyword, the location matches a hub; the tests ignore
  case.\<close>

definition title_keyword :: "string \<Rightarrow> bool" where
  "title_keyword t =
     list_ex (\<lambda>word. contains word (lower t))
       [''toxicology'', ''safety'', ''hepatic'', ''3d'', ''preclinical'', ''director'', ''head'']"

definition funding_keyword :: "string list \<Rightarrow> bool" where
  "funding_keyword fs =
     list_ex (\<lambda>s. contains ''series'' (lower s) \<or> contains ''raised'' (lower s)) fs"

definition hub_location :: "string \<Rightarrow> bool" where
  "hub_location l =
     list_ex (\<lambda>hub. contains hub (lower l))
       [''boston'', ''cambridge'', ''san francisco'', ''basel'', ''london'']"

text \<open>The total of the rule set before clamping: +30, +20, +15 always, +10, +40.\<close>

definition heuristic_total :: "string \<Rightarrow> string \<Rightarrow> string list \<Rightarrow> bool \<Rightarrow> int" where
  "heuristic_total t l fs recent =
     (if title_keyword t then 30 else 0) + (if funding_keyword fs then 20 else 0) + 15
     + (if hub_location l then 10 else 0) + (if recent then 40 else 0)"

text \<open>The first integer found in a response text.\<close>

definition first_integer :: "string \<Rightarrow> int option" where
  "first_integer text = map_option int_of_digits (search_digits text)"

text \<open>What the extraction service answers to a prompt in a state: nothing when the service
  is unavailable (no model, or the quota flag is set), else the reply or failure of the call.\<close>

definition service_reply :: "world \<Rightarrow> state \<Rightarrow> prompt \<Rightarrow> (exn + string) option" where
  "service_reply w st p =
     (if MODEL w \<and> \<not> quota_exceeded st then Some (generate_content w (llm_calls st) p)
      else None)"

text \<open>The score derived from the service as C2 words it: the first integer of the reply, 0
  when there is none or the service gave no reply.\<close>

definition claimed_service_score :: "(exn + string) option \<Rightarrow> int" where
  "claimed_service_score reply =
     (case reply of
        Some (Inr text) \<Rightarrow> (case first_integer text of Some n \<Rightarrow> n | None \<Rightarrow> 0)
      | other \<Rightarrow> 0)"

text \<open>A reply whose first run of digits, if it has one, is of at most 4300 digits: the run
  that \<open>int\<close> converts.\<close>

definition convertible :: "string \<Rightarrow> bool" where
  "convertible text = (case search_digits text of None \<Rightarrow> True | Some d \<Rightarrow> length d \<le> 4300)"

text \<open>The score derived from the service: the first integer of the reply, 0 when there is
  none, when its run of digits is longer than 4300 digits, or when the service gave no
  reply.\<close>

definition service_score :: "(exn + string) option \<Rightarrow> int" where
  "service_score reply =
     (case reply of
        Some (Inr text) \<Rightarrow>
          (if convertible text then (case first_integer text of Some n \<Rightarrow> n | None \<Rightarrow> 0)
           else 0)
      | other \<Rightarrow> 0)"

text \<open>A trace in which no call of the extraction model follows an \<open>Exhausted\<close> event.\<close>

fun quiet_after_exhaustion :: "event list \<Rightarrow> bool" where
  "quiet_after_exhaustion [] = True"
| "quiet_after_exhaustion (e # es) =
     ((e = Exhausted \<longrightarrow> \<not> list_ex is_call es) \<and> quiet_after_exhaustion es)"

text \<open>A state whose flag agrees with its trace: the flag is set exactly when the trace holds
  an \<open>Exhausted\<close> event, and the trace is quiet after it.\<close>

definition consistent :: "state \<Rightarrow> bool" where
  "consistent st =
     ((quota_exceeded st \<longleftrightarrow> Exhausted \<in> set (events st))
      \<and> quiet_after_exhaustion (events st))"

text \<open>What a step from \<open>st\<close> to \<open>st'\<close> owes the quota flag: it keeps a consistent state
  consistent, and from a state with the flag set it leaves the flag set and makes no call.\<close>

definition respects_quota :: "state \<Rightarrow> state \<Rightarrow> bool" where
  "respects_quota st st' =
     ((consistent st \<longrightarrow> consistent st')
      \<and> (quota_exceeded st \<longrightarrow> quota_exceeded st' \<and> events st' = events st))"





text \<open>The value of \<open>names\<close> that the extraction block of \<open>scrape_conference_attendees\<close>
  yields in a state, when the conference search returns: the decoded reply, or the empty list
  when the service is unavailable or the call or the decoding fails.\<close>

definition extracted_names :: "world \<Rightarrow> state \<Rightarrow> json option" where
  "extracted_names w st =
     (case ddgs_text w (searches st) ConferenceQuery 10 of
        Inl e \<Rightarrow> None
      | Inr snippets \<Rightarrow>
          Some (fst (model_names w snippets (st\<lparr>searches := Suc (searches st)\<rparr>))))"

text \<open>The leads of the papers of a list of identifiers, paper by paper, as the loop of lines
  306-317 collects them when every fetch returns (the stage fails when a fetch fails; such an
  identifier contributes none here).\<close>

definition leads_of_papers :: "world \<Rightarrow> string list \<Rightarrow> person list" where
  "leads_of_papers w pmids =
     concat (map (\<lambda>p. case fetch_paper_details w p of
                          Inl e \<Rightarrow> []
                        | Inr d \<Rightarrow> map citation_lead (authors d)) pmids)"

text \<open>A match of the pattern \<open>[A-Z][a-z]+ [A-Z][a-z]+\<close>: two words, each a capital letter
  followed by one or more small letters, with one space between them.\<close>

definition capitalized_word :: "string \<Rightarrow> bool" where
  "capitalized_word s =
     (case s of [] \<Rightarrow> False | c # cs \<Rightarrow> is_upper c \<and> cs \<noteq> [] \<and> list_all is_lower cs)"

definition capitalized_pair :: "string \<Rightarrow> bool" where
  "capitalized_pair s =
     (capitalized_word (takeWhile (\<lambda>c. c \<noteq> CHR '' '') s)
      \<and> (case dropWhile (\<lambda>c. c \<noteq> CHR '' '') s of
            [] \<Rightarrow> False
          | sp # rest \<Rightarrow> capitalized_word rest))"

section \<open>Example runs\<close>

text \<open>
  A world for the examples. Two papers are found; the first has the authors Ann Roe of
  \<open>Acme Inc, Boston, MA\<close> and Bob Poe without an affiliation, and an entry without a family
  name. The conference search returns one snippet. The extraction model answers a scoring
  prompt with \<open>Total score: 85\<close> and fails every other call with a quota error.
\<close>

definition acme_efetch :: "string \<Rightarrow> exn + article_xml list" where
  "acme_efetch p =
     (if p = ''38000001'' then
        Inr [\<lparr>ArticleTitle = ''Hepatic spheroids for DILI'',
              AuthorList = Some
                [\<lparr>LastName = Some ''Roe'', ForeName = Some ''Ann'',
                  AffiliationInfo = [Some ''Acme Inc, Boston, MA'']\<rparr>,
                 \<lparr>LastName = Some ''Poe'', ForeName = Some ''Bob'', AffiliationInfo = []\<rparr>,
                 \<lparr>LastName = None, ForeName = Some ''Consortium'', AffiliationInfo = []\<rparr>]\<rparr>]
      else Inr [\<lparr>ArticleTitle = ''Organ-on-chip'', AuthorList = Some []\<rparr>])"

definition acme_ddgs :: "nat \<Rightarrow> query \<Rightarrow> nat \<Rightarrow> exn + string list" where
  "acme_ddgs n q k =
     (case q of
        ConferenceQuery \<Rightarrow> Inr [''Keynote by Jane Doe and John Smith. Jane Doe chairs.'']
      | FundingQuery c \<Rightarrow>
          (if c = ''acme inc'' then Inr [''Acme Inc raised a Series B round''] else Inr [])
      | other \<Rightarrow> Inr [])"

definition quota_error :: exn where
  "quota_error = Exn ''ResourceExhausted'' ''429 You exceeded your current quota''"

definition acme_generate :: "nat \<Rightarrow> prompt \<Rightarrow> exn + string" where
  "acme_generate n p =
     (case p of
        ScorePrompt c t l fs \<Rightarrow> Inr ''Total score: 85''
      | other \<Rightarrow> Inl quota_error)"

definition acme :: world where
  "acme =
     \<lparr>MODEL = True, generate_content = acme_generate,
      json_loads = (\<lambda>s. Inl (Exn ''JSONDecodeError'' ''Expecting value: line 1 column 1 (char 0)'')),
      ddgs_text = acme_ddgs,
      esearch = (\<lambda>term retmax. Inr [''38000001'', ''38000002'']),
      efetch = acme_efetch, set_order = remdups, GEMINI_API_KEY = True, EMAIL = True\<rparr>"

definition jane :: person where
  "jane =
     \<lparr>name = JStr ''Jane Doe'', title = ''Director of Toxicology'', company = ''Acme Inc'',
      location = JStr ''Boston, MA'', source = ''PubMed'', has_recent_paper = Some True,
      linkedin = None, email = None, score = None\<rparr>"

definition speaker :: person where
  "speaker =
     \<lparr>name = JStr ''John Smith'', title = ''Speaker'', company = ''Unknown'',
      location = JStr ''Unknown'', source = ''Conference'', has_recent_paper = Some False,
      linkedin = None, email = None, score = None\<rparr>"

text \<open>The state after a quota failure at the first call of the model.\<close>

definition exhausted :: state where
  "exhausted = \<lparr>quota_exceeded = True, searches = 1, events = [Call Names, Exhausted]\<rparr>"

text \<open>The same world with a model that fails every call with the quota error.\<close>

definition throttled :: world where
  "throttled = acme\<lparr>generate_content := (\<lambda>n p. Inl quota_error)\<rparr>"

text \<open>The world \<open>acme\<close> with a model whose every reply is 4300 zeros followed by \<open>9\<close>.\<close>

definition padded_reply :: string where
  "padded_reply = replicate 4300 CHR ''0'' @ ''9''"

definition padded :: world where
  "padded = acme\<lparr>generate_content := (\<lambda>n p. Inr padded_reply)\<rparr>"

definition chair :: person where
  "chair = speaker\<lparr>name := JStr ''Jane Doe''\<rparr>"

text \<open>What the run of the pipeline in the world \<open>acme\<close> gives: the ranked list and the final
  state.\<close>

definition acme_ranked :: "person list" where
  "acme_ranked =
     [\<lparr>name = JStr ''Ann Roe'', title = ''Researcher'', company = ''Acme Inc'',
       location = JStr ''Boston, MA'', source = ''PubMed'', has_recent_paper = Some True,
       linkedin = Some (JStr ''https://linkedin.com/in/annroe''),
       email = Some (JStr ''ann.roe@acmeinc.com''), score = Some 85\<rparr>,
      \<lparr>name = JStr ''Bob Poe'', title = ''Researcher'', company = ''Unknown'',
       location = JStr ''Unknown'', source = ''PubMed'', has_recent_paper = Some True,
       linkedin = Some (JStr ''https://linkedin.com/in/bobpoe''),
       email = Some (JStr ''bob.poe@unknown.com''), score = Some 55\<rparr>,
      \<lparr>name = JStr ''John Smith'', title = ''Speaker'', company = ''Unknown'',
       location = JStr ''Unknown'', source = ''Conference'', has_recent_paper = Some False,
       linkedin = Some (JStr ''https://linkedin.com/in/johnsmith''),
       email = Some (JStr ''john.smith@unknown.com''), score = Some 15\<rparr>,
      \<lparr>name = JStr ''Jane Doe'', title = ''Speaker'', company = ''Unknown'',
       location = JStr ''Unknown'', source = ''Conference'', has_recent_paper = Some False,
       linkedin = Some (JStr ''https://linkedin.com/in/janedoe''),
       email = Some (JStr ''jane.doe@unknown.com''), score = Some 15\<rparr>]"

definition acme_final :: state where
  "acme_final = \<lparr>quota_exceeded = True, searches = 17, events = [Call Names, Exhausted]\<rparr>"

text \<open>The speaker of the examples after enrichment without the model.\<close>

definition speaker_enriched :: person where
  "speaker_enriched =
     speaker\<lparr>linkedin := Some (JStr ''https://linkedin.com/in/johnsmith''),
             email := Some (JStr ''john.smith@unknown.com'')\<rparr>"


text \<open>The world \<open>acme\<close> with a fetch that fails for the second paper.\<close>

definition bad_gateway :: exn where
  "bad_gateway = Exn ''HTTPError'' ''HTTP Error 502: Bad Gateway''"

definition broken :: world where
  "broken = acme\<lparr>efetch := (\<lambda>p. if p = ''38000002'' then Inl bad_gateway else acme_efetch p)\<rparr>"

text \<open>
  A world with one paper, whose author's affiliation begins with a comma, and a model that
  answers the prompt for names with the JSON text of the list of one empty string, which
  \<open>json.loads\<close> decodes to that list.
\<close>

definition one_empty_name :: string where
  "one_empty_name = [CHR ''['', CHR 0x22, CHR 0x22, CHR '']'']"

definition sloppy :: world where
  "sloppy =
     acme\<lparr>generate_content := (\<lambda>n p. Inr one_empty_name),
          json_loads := (\<lambda>s. if s = one_empty_name then Inr (JArr [JStr ''''])
                               else Inl (Exn ''JSONDecodeError'' ''Expecting value'')),
          esearch := (\<lambda>term retmax. Inr [''38000003'']),
          efetch := (\<lambda>p. Inr [\<lparr>ArticleTitle = ''Investigative toxicology'',
                                  AuthorList = Some
                                    [\<lparr>LastName = Some ''Roe'', ForeName = Some ''Ann'',
                                      AffiliationInfo = [Some '', Boston, MA'']\<rparr>]\<rparr>])\<rparr>"

text \<open>
  A world whose model answers the prompt for names with a JSON list of 21 names,
  \<open>["Speaker A", "Speaker B", ..., "Speaker U"]\<close>, which \<open>json.loads\<close> decodes to the list
  of these 21 strings.
\<close>

definition speakers21 :: "string list" where
  "speakers21 = map (\<lambda>c. ''Speaker '' @ [c]) ''ABCDEFGHIJKLMNOPQRSTU''"

definition speakers21_text :: string where
  "speakers21_text =
     ''['' @ join '', '' (map (\<lambda>s. [CHR 0x22] @ s @ [CHR 0x22]) speakers21) @ '']''"

definition chatty :: world where
  "chatty =
     acme\<lparr>generate_content := (\<lambda>n p. Inr speakers21_text),
          json_loads := (\<lambda>s. if s = speakers21_text then Inr (JArr (map JStr speakers21))
                               else Inl (Exn ''JSONDecodeError'' ''Expecting value''))\<rparr>"

text \<open>The leads of the first paper of the world \<open>acme\<close>, and the conference leads that the
  pattern finds in its snippet.\<close>

definition acme_citation_leads :: "person list" where
  "acme_citation_leads =
     [\<lparr>name = JStr ''Ann Roe'', title = ''Researcher'', company = ''Acme Inc'',
       location = JStr ''Boston, MA'', source = ''PubMed'', has_recent_paper = Some True,
       linkedin = None, email = None, score = None\<rparr>,
      \<lparr>name = JStr ''Bob Poe'', title = ''Researcher'', company = ''Unknown'',
       location = JStr ''Unknown'', source = ''PubMed'', has_recent_paper = Some True,
       linkedin = None, email = None, score = None\<rparr>]"

definition acme_conference_leads :: "person list" where
  "acme_conference_leads =
     [\<lparr>name = JStr ''John Smith'', title = ''Speaker'', company = ''Unknown'',
       location = JStr ''Unknown'', source = ''Conference'', has_recent_paper = Some False,
       linkedin = None, email = None, score = None\<rparr>,
      \<lparr>name = JStr ''Jane Doe'', title = ''Speaker'', company = ''Unknown'',
       location = JStr ''Unknown'', source = ''Conference'', has_recent_paper = Some False,
       linkedin = None, email = None, score = None\<rparr>]"

text \<open>The world \<open>throttled\<close> with a conference snippet that names 21 people:
  \<open>Ann Roe; Bnn Roe; ...; Unn Roe\<close>.\<close>

definition crowd21 :: "string list" where
  "crowd21 = map (\<lambda>c. [c] @ ''nn Roe'') ''ABCDEFGHIJKLMNOPQRSTU''"

definition crowded :: world where
  "crowded =
     throttled\<lparr>ddgs_text := (\<lambda>n q k. case q of
                                         ConferenceQuery \<Rightarrow> Inr [join ''; '' crowd21]
                                       | other \<Rightarrow> Inr [])\<rparr>"

section \<open>The score\<close>

lemma lower_char_idem: "lower_char (lower_char c) = lower_char c"
  by (simp add: lower_char_def has_lowercase_def is_upper_def)

lemma lower_idem: "lower (lower s) = lower s"
  by (simp add: lower_def lower_char_idem)

lemma digit_not_space: "is_digit c \<Longrightarrow> \<not> is_space c"
  by (simp add: is_digit_def is_space_def)

lemma dropWhile_nondigit_spaces:
  "dropWhile (\<lambda>c. \<not> is_digit c) (dropWhile is_space s) = dropWhile (\<lambda>c. \<not> is_digit c) s"
  by (induction s) (auto dest: digit_not_space)

lemma takeWhile_digit_append:
  "\<forall>c \<in> set ws. \<not> is_digit c \<Longrightarrow> takeWhile is_digit (s @ ws) = takeWhile is_digit s"
  by (induction s) (auto simp: takeWhile_eq_Nil_iff)

lemma dropWhile_nondigit_all:
  "\<forall>c \<in> set ws. \<not> is_digit c \<Longrightarrow> dropWhile (\<lambda>c. \<not> is_digit c) ws = []"
  by (simp add: dropWhile_eq_Nil_conv)

lemma search_digits_append:
  "\<forall>c \<in> set ws. \<not> is_digit c \<Longrightarrow> search_digits (s @ ws) = search_digits s"
proof (induction s)
  case Nil
  then show ?case
    by (simp add: search_digits_def dropWhile_nondigit_all)
next
  case (Cons c s)
  then show ?case
    by (cases "is_digit c") (simp_all add: search_digits_def takeWhile_digit_append)
qed

lemma strip_decomp: "\<exists>ws. (\<forall>c \<in> set ws. is_space c) \<and> dropWhile is_space s = strip s @ ws"
proof -
  let ?t = "dropWhile is_space s"
  have "rev ?t = takeWhile is_space (rev ?t) @ dropWhile is_space (rev ?t)" by simp
  then have "?t = rev (dropWhile is_space (rev ?t)) @ rev (takeWhile is_space (rev ?t))"
    by (metis rev_append rev_rev_ident)
  moreover have "\<forall>c \<in> set (rev (takeWhile is_space (rev ?t))). is_space c"
    by (auto dest: set_takeWhileD)
  ultimately show ?thesis unfolding strip_def by blast
qed

lemma search_digits_strip: "search_digits (strip s) = search_digits s"
proof -
  obtain ws where ws: "\<forall>c \<in> set ws. is_space c" "dropWhile is_space s = strip s @ ws"
    using strip_decomp by blast
  have "search_digits s = search_digits (dropWhile is_space s)"
    by (simp add: search_digits_def dropWhile_nondigit_spaces)
  also have "\<dots> = search_digits (strip s)"
    using ws search_digits_append[of ws "strip s"] by (auto dest: digit_not_space)
  finally show ?thesis by simp
qed

lemma int_of_digits_nonneg_aux: "0 \<le> a \<Longrightarrow> 0 \<le> foldl (\<lambda>acc c. 10 * acc + digit_val c) a s"
  by (induction s arbitrary: a) (auto simp: digit_val_def)

lemma int_of_digits_nonneg: "0 \<le> int_of_digits s"
  by (simp add: int_of_digits_def int_of_digits_nonneg_aux)

lemma model_score_eq:
  "fst (model_score w p st) = service_score (service_reply w st p)"
proof (cases "MODEL w \<and> \<not> quota_exceeded st")
  case False
  then show ?thesis
    by (auto simp: model_score_def service_score_def service_reply_def)
next
  case True
  show ?thesis
  proof (cases "generate_content w (llm_calls st) p")
    case (Inl e)
    with True show ?thesis
      by (simp add: model_score_def service_score_def service_reply_def generate_def)
  next
    case (Inr reply)
    show ?thesis
    proof (cases "search_digits reply")
      case None
      with True Inr show ?thesis
        by (simp add: model_score_def service_score_def service_reply_def generate_def
              first_integer_def convertible_def search_digits_strip)
    next
      case (Some d)
      with True Inr show ?thesis
        by (simp add: model_score_def service_score_def service_reply_def generate_def
              first_integer_def convertible_def search_digits_strip py_int_def)
    qed
  qed
qed

lemma service_score_nonneg: "0 \<le> service_score r"
  by (auto simp: service_score_def first_integer_def int_of_digits_nonneg split: option.splits sum.splits)

lemma fallback_eq:
  "fallback s0 (lower t) (lower l) fs r = min (s0 + heuristic_total t l fs (r = Some True)) 100"
  by (simp add: fallback_def heuristic_total_def title_keyword_def funding_keyword_def
        hub_location_def lower_idem Let_def add.commute del: list_ex_Cons_iff list_ex_Nil_iff)

lemma heuristic_total_bounds: "15 \<le> heuristic_total t l fs r \<and> heuristic_total t l fs r \<le> 115"
  by (simp add: heuristic_total_def)

lemma calculate_score_eq:
  assumes "location p = JStr loc"
      and "ddgs_text w (searches st) (FundingQuery (lower (company p))) 5 = Inr fs"
  shows "fst (calculate_score w p st) =
           Inr (min (service_score (service_reply w st
                       (ScorePrompt (lower (company p)) (lower (title p)) (lower loc) fs))
                     + heuristic_total (title p) loc fs (has_recent_paper p = Some True)) 100)"
proof -
  let ?st1 = "st\<lparr>searches := Suc (searches st)\<rparr>"
  let ?pr = "ScorePrompt (lower (company p)) (lower (title p)) (lower loc) fs"
  have r: "service_reply w ?st1 ?pr = service_reply w st ?pr"
    by (simp add: service_reply_def llm_calls_def)
  have "fst (calculate_score w p st) =
          Inr (fallback (fst (model_score w ?pr ?st1)) (lower (title p)) (lower loc) fs (has_recent_paper p))"
    using assms by (simp add: calculate_score_def search_def Let_def split: prod.splits)
  then show ?thesis by (simp add: fallback_eq model_score_eq r)
qed

lemma calculate_score_cases:
  assumes "calculate_score w p st = (Inr s, st')"
  shows "\<exists>loc fs. location p = JStr loc
           \<and> ddgs_text w (searches st) (FundingQuery (lower (company p))) 5 = Inr fs"
  using assms
  by (auto simp: calculate_score_def search_def Let_def split: json.splits sum.splits prod.splits)

lemma calculate_score_bounds:
  assumes "calculate_score w p st = (Inr s, st')"
  shows "15 \<le> s \<and> s \<le> 100"
proof -
  obtain loc fs where h: "location p = JStr loc"
      "ddgs_text w (searches st) (FundingQuery (lower (company p))) 5 = Inr fs"
    using calculate_score_cases[OF assms] by blast
  from calculate_score_eq[OF h] assms
  have "s = min (service_score (service_reply w st
                       (ScorePrompt (lower (company p)) (lower (title p)) (lower loc) fs))
                     + heuristic_total (title p) loc fs (has_recent_paper p = Some True)) 100"
    by simp
  then show ?thesis
    using service_score_nonneg[of "service_reply w st
                       (ScorePrompt (lower (company p)) (lower (title p)) (lower loc) fs)"]
      heuristic_total_bounds[of "title p" loc fs "has_recent_paper p = Some True"]
    by linarith
qed

lemma search_digits_all:
  assumes "s \<noteq> []" and "\<forall>c \<in> set s. is_digit c"
  shows "search_digits s = Some s"
proof -
  from assms obtain d ds where s: "s = d # ds" by (cases s) auto
  with assms(2) have "dropWhile (\<lambda>c. \<not> is_digit c) s = s" by simp
  moreover from assms(2) have "takeWhile is_digit s = s" by (simp add: takeWhile_eq_all_conv)
  ultimately show ?thesis using s by (simp add: search_digits_def)
qed

lemma padded_reply_digits: "search_digits padded_reply = Some padded_reply"
proof (rule search_digits_all)
  show "padded_reply \<noteq> []" by (simp add: padded_reply_def)
  show "\<forall>c \<in> set padded_reply. is_digit c"
    by (auto simp: padded_reply_def is_digit_def)
qed

lemma padded_reply_long: "\<not> convertible padded_reply"
proof -
  have "length padded_reply = 4301" by (simp add: padded_reply_def)
  then show ?thesis by (simp add: convertible_def padded_reply_digits)
qed

lemma zeros_value: "foldl (\<lambda>acc c. 10 * acc + digit_val c) 0 (replicate k CHR ''0'') = 0"
  by (induction k) (simp_all add: digit_val_def)

lemma padded_reply_nine: "first_integer padded_reply = Some 9"
proof -
  have "int_of_digits padded_reply = digit_val CHR ''9''"
    by (simp add: int_of_digits_def padded_reply_def zeros_value)
  then have "int_of_digits padded_reply = 9"
    by (simp add: digit_val_def)
  then show ?thesis by (simp add: first_integer_def padded_reply_digits)
qed

text \<open>
  C1. Every score that \<open>calculate_score\<close> returns is an integer from 0 to 100, whatever the
  extraction service replied and whatever the title, location, funding snippets and
  publication flag are; when all four conditional rules fire, the rule set totals
  30 + 20 + 15 + 10 + 40 = 115 and the score returned is 100.
\<close>

theorem score_in_range:
  assumes "calculate_score w p st = (Inr s, st')"
  shows "0 \<le> s \<and> s \<le> 100
         \<and> (\<forall>loc fs. location p = JStr loc
               \<and> ddgs_text w (searches st) (FundingQuery (lower (company p))) 5 = Inr fs
               \<and> title_keyword (title p) \<and> funding_keyword fs \<and> hub_location loc
               \<and> has_recent_paper p = Some True
             \<longrightarrow> heuristic_total (title p) loc fs True = 115 \<and> s = 100)"
proof -
  have range: "0 \<le> s \<and> s \<le> 100"
    using calculate_score_bounds[OF assms] by simp
  have top: "heuristic_total (title p) loc fs True = 115 \<and> s = 100"
    if h: "location p = JStr loc"
          "ddgs_text w (searches st) (FundingQuery (lower (company p))) 5 = Inr fs"
       and b: "title_keyword (title p)" "funding_keyword fs" "hub_location loc"
              "has_recent_paper p = Some True"
    for loc fs
  proof -
    have t: "heuristic_total (title p) loc fs True = 115"
      using b by (simp add: heuristic_total_def)
    let ?m = "service_score (service_reply w st
                (ScorePrompt (lower (company p)) (lower (title p)) (lower loc) fs))"
    have "s = min (?m + heuristic_total (title p) loc fs True) 100"
      using calculate_score_eq[OF h] assms b by simp
    with t service_score_nonneg[of "service_reply w st
                (ScorePrompt (lower (company p)) (lower (title p)) (lower loc) fs)"]
    show ?thesis by simp
  qed
  from range top show ?thesis by blast
qed

theorem score_in_range_witness:
  "calculate_score acme jane initial
     = (Inr 100, \<lparr>quota_exceeded = False, searches = 1, events = [Call Score]\<rparr>)
   \<and> location jane = JStr ''Boston, MA''
   \<and> ddgs_text acme (searches initial) (FundingQuery (lower (company jane))) 5
       = Inr [''Acme Inc raised a Series B round'']
   \<and> title_keyword (title jane) \<and> funding_keyword [''Acme Inc raised a Series B round'']
   \<and> hub_location ''Boston, MA'' \<and> has_recent_paper jane = Some True
   \<and> heuristic_total (title jane) ''Boston, MA'' [''Acme Inc raised a Series B round''] True = 115
   \<and> (0::int) \<le> 100"
proof -
  have run: "calculate_score acme jane initial
               = (Inr 100, \<lparr>quota_exceeded = False, searches = 1, events = [Call Score]\<rparr>)"
    by code_simp
  have loc: "location jane = JStr ''Boston, MA''"
    by code_simp
  have fs: "ddgs_text acme (searches initial) (FundingQuery (lower (company jane))) 5
              = Inr [''Acme Inc raised a Series B round'']"
    by code_simp
  have rules: "title_keyword (title jane)" "funding_keyword [''Acme Inc raised a Series B round'']"
      "hub_location ''Boston, MA''" "has_recent_paper jane = Some True"
    by code_simp+
  from score_in_range[OF run] loc fs rules
  have "heuristic_total (title jane) ''Boston, MA'' [''Acme Inc raised a Series B round''] True = 115"
    by blast
  with run loc fs rules show ?thesis by simp
qed

text \<open>
  C2, as the code has it. The score of a lead is the score derived from the extraction
  service plus the whole rule set (+30, +20, +15, +10, +40), clamped to 100, and the rule set
  is added also when the service answers. The score derived from the service is the first
  integer of the reply; it is 0 when the reply has no digit, when the call fails or the
  service is unavailable, and also when the first run of digits is longer than 4300 digits,
  for \<open>int\<close> then raises inside the \<open>try\<close> and the \<open>except\<close> branch sets the score to 0.
  The score is returned whenever the location is a string and the funding search returns.
\<close>

theorem score_is_service_plus_rules:
  assumes "location p = JStr loc"
      and "ddgs_text w (searches st) (FundingQuery (lower (company p))) 5 = Inr fs"
  shows "fst (calculate_score w p st) =
           Inr (min (service_score (service_reply w st
                       (ScorePrompt (lower (company p)) (lower (title p)) (lower loc) fs))
                     + heuristic_total (title p) loc fs (has_recent_paper p = Some True)) 100)
         \<and> (\<forall>reply n. service_reply w st
                         (ScorePrompt (lower (company p)) (lower (title p)) (lower loc) fs)
                       = Some (Inr reply) \<and> first_integer reply = Some n \<and> convertible reply
               \<longrightarrow> fst (calculate_score w p st) =
                     Inr (min (n + heuristic_total (title p) loc fs
                                    (has_recent_paper p = Some True)) 100))
         \<and> (\<forall>reply. service_reply w st
                       (ScorePrompt (lower (company p)) (lower (title p)) (lower loc) fs)
                     = Some (Inr reply) \<and> (first_integer reply = None \<or> \<not> convertible reply)
               \<longrightarrow> fst (calculate_score w p st) =
                     Inr (min (heuristic_total (title p) loc fs
                                 (has_recent_paper p = Some True)) 100))
         \<and> (\<forall>e. service_reply w st
                   (ScorePrompt (lower (company p)) (lower (title p)) (lower loc) fs)
                 = Some (Inl e)
               \<longrightarrow> fst (calculate_score w p st) =
                     Inr (min (heuristic_total (title p) loc fs
                                 (has_recent_paper p = Some True)) 100))
         \<and> (\<not> MODEL w \<or> quota_exceeded st
               \<longrightarrow> fst (calculate_score w p st) =
                     Inr (min (heuristic_total (title p) loc fs
                                 (has_recent_paper p = Some True)) 100))"
proof -
  let ?reply = "service_reply w st
                  (ScorePrompt (lower (company p)) (lower (title p)) (lower loc) fs)"
  let ?rules = "heuristic_total (title p) loc fs (has_recent_paper p = Some True)"
  have sum: "fst (calculate_score w p st) = Inr (min (service_score ?reply + ?rules) 100)"
    using assms by (rule calculate_score_eq)
  have answered: "fst (calculate_score w p st) = Inr (min (n + ?rules) 100)"
    if "?reply = Some (Inr r)" "first_integer r = Some n" "convertible r" for r n
    using sum that by (simp add: service_score_def)
  have none: "fst (calculate_score w p st) = Inr (min ?rules 100)"
    if "?reply = Some (Inr r)" "first_integer r = None \<or> \<not> convertible r" for r
    using sum that by (auto simp: service_score_def)
  have failed: "fst (calculate_score w p st) = Inr (min ?rules 100)"
    if "?reply = Some (Inl e)" for e
    using sum that by (simp add: service_score_def)
  have unavailable: "fst (calculate_score w p st) = Inr (min ?rules 100)"
    if "\<not> MODEL w \<or> quota_exceeded st"
  proof -
    from that have "?reply = None" by (auto simp: service_reply_def)
    with sum show ?thesis by (simp add: service_score_def)
  qed
  from sum answered none failed unavailable show ?thesis by blast
qed

theorem score_is_service_plus_rules_witness:
  "location speaker = JStr ''Unknown''
   \<and> ddgs_text acme (searches initial) (FundingQuery (lower (company speaker))) 5 = Inr []
   \<and> service_reply acme initial
        (ScorePrompt (lower (company speaker)) (lower (title speaker)) (lower ''Unknown'') [])
       = Some (Inr ''Total score: 85'')
   \<and> first_integer ''Total score: 85'' = Some 85 \<and> convertible ''Total score: 85''
   \<and> heuristic_total (title speaker) ''Unknown'' [] (has_recent_paper speaker = Some True) = 15
   \<and> fst (calculate_score acme speaker initial) = Inr 100
   \<and> ddgs_text acme (searches exhausted) (FundingQuery (lower (company speaker))) 5 = Inr []
   \<and> quota_exceeded exhausted
   \<and> fst (calculate_score acme speaker exhausted) = Inr 15
   \<and> ddgs_text padded (searches initial) (FundingQuery (lower (company speaker))) 5 = Inr []
   \<and> service_reply padded initial
        (ScorePrompt (lower (company speaker)) (lower (title speaker)) (lower ''Unknown'') [])
       = Some (Inr padded_reply)
   \<and> \<not> convertible padded_reply
   \<and> fst (calculate_score padded speaker initial) = Inr 15
   \<and> ddgs_text throttled (searches initial) (FundingQuery (lower (company speaker))) 5 = Inr []
   \<and> service_reply throttled initial
        (ScorePrompt (lower (company speaker)) (lower (title speaker)) (lower ''Unknown'') [])
       = Some (Inl quota_error)
   \<and> fst (calculate_score throttled speaker initial) = Inr 15"
proof -
  let ?pr = "ScorePrompt (lower (company speaker)) (lower (title speaker)) (lower ''Unknown'') []"
  let ?rules = "heuristic_total (title speaker) ''Unknown'' [] (has_recent_paper speaker = Some True)"
  have loc: "location speaker = JStr ''Unknown''"
    by code_simp
  have fs: "ddgs_text acme (searches initial) (FundingQuery (lower (company speaker))) 5 = Inr []"
    by code_simp
  have service: "service_reply acme initial ?pr = Some (Inr ''Total score: 85'')"
      "first_integer ''Total score: 85'' = Some 85" "convertible ''Total score: 85''"
    by code_simp+
  have rules: "?rules = 15"
    by code_simp
  have fs': "ddgs_text acme (searches exhausted) (FundingQuery (lower (company speaker))) 5 = Inr []"
    by code_simp
  have q: "quota_exceeded exhausted"
    by code_simp
  have fsp: "ddgs_text padded (searches initial) (FundingQuery (lower (company speaker))) 5 = Inr []"
    by code_simp
  have sp: "service_reply padded initial ?pr = Some (Inr padded_reply)"
    by (simp add: service_reply_def padded_def acme_def initial_def)
  have np: "\<not> convertible padded_reply"
    by (rule padded_reply_long)
  have fst: "ddgs_text throttled (searches initial) (FundingQuery (lower (company speaker))) 5 = Inr []"
    by code_simp
  have st: "service_reply throttled initial ?pr = Some (Inl quota_error)"
    by code_simp
  from score_is_service_plus_rules[OF loc fs] service
  have "fst (calculate_score acme speaker initial) = Inr (min (85 + ?rules) 100)"
    by blast
  with rules have a: "fst (calculate_score acme speaker initial) = Inr 100"
    by simp
  from score_is_service_plus_rules[OF loc fs'] q
  have "fst (calculate_score acme speaker exhausted) = Inr (min ?rules 100)"
    by blast
  with rules have b: "fst (calculate_score acme speaker exhausted) = Inr 15"
    by simp
  from score_is_service_plus_rules[OF loc fsp] sp np
  have "fst (calculate_score padded speaker initial) = Inr (min ?rules 100)"
    by blast
  with rules have c: "fst (calculate_score padded speaker initial) = Inr 15"
    by simp
  from score_is_service_plus_rules[OF loc fst] st
  have "fst (calculate_score throttled speaker initial) = Inr (min ?rules 100)"
    by blast
  with rules have d: "fst (calculate_score throttled speaker initial) = Inr 15"
    by simp
  from loc fs service rules fs' q a b fsp sp np c fst st d show ?thesis by simp
qed

text \<open>
  C2 as stated fails: in the world \<open>padded\<close> the model answers with 4300 zeros followed by
  \<open>9\<close>. The first integer found in the reply is 9 and the rule set totals 15, so the claim
  gives 24; \<open>int\<close> refuses the run of 4301 digits and the score returned is 15.
\<close>

theorem long_integer_scores_zero:
  "service_reply padded initial
     (ScorePrompt (lower (company speaker)) (lower (title speaker)) (lower ''Unknown'') [])
     = Some (Inr padded_reply)
   \<and> first_integer padded_reply = Some 9
   \<and> claimed_service_score (Some (Inr padded_reply)) = 9
   \<and> heuristic_total (title speaker) ''Unknown'' [] (has_recent_paper speaker = Some True) = 15
   \<and> fst (calculate_score padded speaker initial) = Inr 15
   \<and> fst (calculate_score padded speaker initial) \<noteq> Inr (min (9 + 15) 100)"
proof -
  let ?pr = "ScorePrompt (lower (company speaker)) (lower (title speaker)) (lower ''Unknown'') []"
  have loc: "location speaker = JStr ''Unknown''"
    by code_simp
  have fsp: "ddgs_text padded (searches initial) (FundingQuery (lower (company speaker))) 5 = Inr []"
    by code_simp
  have sp: "service_reply padded initial ?pr = Some (Inr padded_reply)"
    by (simp add: service_reply_def padded_def acme_def initial_def)
  have nine: "first_integer padded_reply = Some 9"
    by (rule padded_reply_nine)
  then have claimed: "claimed_service_score (Some (Inr padded_reply)) = 9"
    by (simp add: claimed_service_score_def)
  have rules: "heuristic_total (title speaker) ''Unknown'' [] (has_recent_paper speaker = Some True) = 15"
    by code_simp
  have "service_score (Some (Inr padded_reply)) = 0"
    using padded_reply_long by (simp add: service_score_def)
  with calculate_score_eq[OF loc fsp] sp rules
  have run: "fst (calculate_score padded speaker initial) = Inr 15"
    by simp
  from sp nine claimed rules run show ?thesis by simp
qed

section \<open>The ranked list\<close>

lemma score_loop_shape:
  "score_loop w leads st = (Inr scored, st') \<Longrightarrow>
     \<exists>ss. length ss = length leads
        \<and> scored = map2 (\<lambda>lead s. lead\<lparr>score := Some s\<rparr>) leads ss
        \<and> (\<forall>s \<in> set ss. 15 \<le> s \<and> s \<le> 100)"
proof (induction leads arbitrary: st scored)
  case Nil
  then show ?case by simp
next
  case (Cons lead rest)
  from Cons.prems obtain s st1 tl where
    c: "calculate_score w lead st = (Inr s, st1)" and
    r: "score_loop w rest st1 = (Inr tl, st')" and
    e: "scored = lead\<lparr>score := Some s\<rparr> # tl"
    by (auto split: prod.splits sum.splits)
  from Cons.IH[OF r] obtain ss where
    ss: "length ss = length rest" "tl = map2 (\<lambda>lead s. lead\<lparr>score := Some s\<rparr>) rest ss"
        "\<forall>s \<in> set ss. 15 \<le> s \<and> s \<le> 100"
    by blast
  from calculate_score_bounds[OF c] ss e
  have "length (s # ss) = length (lead # rest)
        \<and> scored = map2 (\<lambda>lead s. lead\<lparr>score := Some s\<rparr>) (lead # rest) (s # ss)
        \<and> (\<forall>x \<in> set (s # ss). 15 \<le> x \<and> x \<le> 100)"
    by simp
  then show ?case by blast
qed

lemma scored_member:
  assumes "x \<in> set (map2 (\<lambda>lead s. lead\<lparr>score := Some s\<rparr>) leads ss)"
  shows "\<exists>s \<in> set ss. score x = Some s"
proof -
  from assms obtain lead s where "(lead, s) \<in> set (zip leads ss)" "x = lead\<lparr>score := Some s\<rparr>"
    by auto
  then show ?thesis by (auto dest: set_zip_rightD)
qed

lemma ranking_cases:
  assumes "ranking w leads st = (Inr ranked, st')"
  shows "\<exists>scored. score_loop w leads st = (Inr scored, st')
           \<and> ranked = rev (sort_key score_key (rev scored))"
  using assms
  by (auto simp: ranking_def sort_by_score_def split: prod.splits sum.splits if_splits)

lemma descending_rev_sort:
  "sorted_wrt (\<lambda>a b. f a \<ge> f b) (rev (sort_key f xs))"
proof -
  have "sorted (map f (sort_key f xs))" by (rule sorted_sort_key)
  then show ?thesis by (simp add: sorted_wrt_rev sorted_map)
qed

lemma stable_rev_sort:
  "filter (\<lambda>y. f y = k) (rev (sort_key f (rev xs))) = filter (\<lambda>y. f y = k) xs"
proof -
  have "filter (\<lambda>y. f y = k) (rev (sort_key f (rev xs)))
          = rev (filter (\<lambda>y. f y = k) (sort_key f (rev xs)))"
    by (simp add: rev_filter)
  also have "\<dots> = rev (filter (\<lambda>y. f y = k) (rev xs))"
    by (simp only: sort_key_stable)
  also have "\<dots> = filter (\<lambda>y. f y = k) xs"
    by (simp add: rev_filter)
  finally show ?thesis .
qed

lemma ranked_scores:
  assumes "ranking w leads st = (Inr ranked, st')" and "x \<in> set ranked"
  shows "15 \<le> score_key x \<and> score_key x \<le> 100"
proof -
  from ranking_cases[OF assms(1)] obtain scored where
    sl: "score_loop w leads st = (Inr scored, st')" and
    rk: "ranked = rev (sort_key score_key (rev scored))"
    by blast
  from score_loop_shape[OF sl] obtain ss where
    ss: "length ss = length leads" "scored = map2 (\<lambda>lead s. lead\<lparr>score := Some s\<rparr>) leads ss"
        "\<forall>s \<in> set ss. 15 \<le> s \<and> s \<le> 100"
    by blast
  from assms(2) rk have "x \<in> set scored" by simp
  with ss(2) obtain s where "s \<in> set ss" "score x = Some s"
    using scored_member by blast
  with ss(3) show ?thesis by (simp add: score_key_def)
qed

text \<open>
  C4. The output of the scoring stage is in descending order of score, and leads of equal
  score keep the relative order they had in the stage's input: the output is a rearrangement
  of the input leads with their scores attached, and for every score the leads with that score
  come in input order.
\<close>

theorem ranking_descending_stable:
  assumes "ranking w leads st = (Inr ranked, st')"
  shows "sorted_wrt (\<lambda>a b. score_key a \<ge> score_key b) ranked
         \<and> (\<exists>ss. length ss = length leads
               \<and> mset ranked = mset (map2 (\<lambda>lead s. lead\<lparr>score := Some s\<rparr>) leads ss)
               \<and> (\<forall>k. filter (\<lambda>x. score_key x = k) ranked
                        = filter (\<lambda>x. score_key x = k)
                            (map2 (\<lambda>lead s. lead\<lparr>score := Some s\<rparr>) leads ss)))"
proof -
  from ranking_cases[OF assms] obtain scored where
    sl: "score_loop w leads st = (Inr scored, st')" and
    rk: "ranked = rev (sort_key score_key (rev scored))"
    by blast
  from score_loop_shape[OF sl] obtain ss where
    ss: "length ss = length leads" "scored = map2 (\<lambda>lead s. lead\<lparr>score := Some s\<rparr>) leads ss"
    by blast
  have desc: "sorted_wrt (\<lambda>a b. score_key a \<ge> score_key b) ranked"
    unfolding rk by (rule descending_rev_sort)
  have perm: "mset ranked = mset scored"
    unfolding rk by simp
  have stable: "filter (\<lambda>x. score_key x = k) ranked = filter (\<lambda>x. score_key x = k) scored" for k
    unfolding rk by (rule stable_rev_sort)
  from desc perm stable ss show ?thesis by blast
qed

theorem ranking_descending_stable_witness:
  "ranking acme [speaker, jane, chair] exhausted
     = (Inr [jane\<lparr>score := Some 100\<rparr>, speaker\<lparr>score := Some 15\<rparr>, chair\<lparr>score := Some 15\<rparr>],
        \<lparr>quota_exceeded = True, searches = 4, events = [Call Names, Exhausted]\<rparr>)
   \<and> sorted_wrt (\<lambda>a b. score_key a \<ge> score_key b)
        [jane\<lparr>score := Some 100\<rparr>, speaker\<lparr>score := Some 15\<rparr>, chair\<lparr>score := Some 15\<rparr>]
   \<and> filter (\<lambda>x. score_key x = 15)
        [jane\<lparr>score := Some 100\<rparr>, speaker\<lparr>score := Some 15\<rparr>, chair\<lparr>score := Some 15\<rparr>]
      = [speaker\<lparr>score := Some 15\<rparr>, chair\<lparr>score := Some 15\<rparr>]"
proof -
  have run: "ranking acme [speaker, jane, chair] exhausted
     = (Inr [jane\<lparr>score := Some 100\<rparr>, speaker\<lparr>score := Some 15\<rparr>, chair\<lparr>score := Some 15\<rparr>],
        \<lparr>quota_exceeded = True, searches = 4, events = [Call Names, Exhausted]\<rparr>)"
    by code_simp
  have ties: "filter (\<lambda>x. score_key x = 15)
        [jane\<lparr>score := Some 100\<rparr>, speaker\<lparr>score := Some 15\<rparr>, chair\<lparr>score := Some 15\<rparr>]
      = [speaker\<lparr>score := Some 15\<rparr>, chair\<lparr>score := Some 15\<rparr>]"
    by code_simp
  from ranking_descending_stable[OF run] run ties show ?thesis by blast
qed

text \<open>
  C10. The rule of +15 is unconditional, so every score that \<open>calculate_score\<close> returns is at
  least 15 (and at most 100), and a minimum-score filter with a threshold of 15 or less keeps
  every lead of the ranked list.
\<close>

theorem score_at_least_15:
  "(calculate_score w p st = (Inr s, st') \<longrightarrow> 15 \<le> s \<and> s \<le> 100)
   \<and> (ranking w leads st0 = (Inr ranked, st1) \<and> min_score \<le> 15
        \<longrightarrow> filtered_leads min_score ranked = ranked)"
proof -
  have keep: "filtered_leads min_score ranked = ranked"
    if r: "ranking w leads st0 = (Inr ranked, st1)" and m: "min_score \<le> 15"
  proof -
    have "\<forall>x \<in> set ranked. min_score \<le> score_key x"
      using ranked_scores[OF r] m by fastforce
    then show ?thesis by (simp add: filtered_leads_def)
  qed
  show ?thesis using calculate_score_bounds keep by blast
qed

theorem score_at_least_15_witness:
  "calculate_score acme speaker exhausted
     = (Inr 15, \<lparr>quota_exceeded = True, searches = 2, events = [Call Names, Exhausted]\<rparr>)
   \<and> ranking acme [speaker, jane] exhausted
     = (Inr [jane\<lparr>score := Some 100\<rparr>, speaker\<lparr>score := Some 15\<rparr>],
        \<lparr>quota_exceeded = True, searches = 3, events = [Call Names, Exhausted]\<rparr>)
   \<and> (15::int) \<le> 15
   \<and> filtered_leads 15 [jane\<lparr>score := Some 100\<rparr>, speaker\<lparr>score := Some 15\<rparr>]
       = [jane\<lparr>score := Some 100\<rparr>, speaker\<lparr>score := Some 15\<rparr>]"
proof -
  have one: "calculate_score acme speaker exhausted
     = (Inr 15, \<lparr>quota_exceeded = True, searches = 2, events = [Call Names, Exhausted]\<rparr>)"
    by code_simp
  have run: "ranking acme [speaker, jane] exhausted
     = (Inr [jane\<lparr>score := Some 100\<rparr>, speaker\<lparr>score := Some 15\<rparr>],
        \<lparr>quota_exceeded = True, searches = 3, events = [Call Names, Exhausted]\<rparr>)"
    by code_simp
  have le: "(15::int) \<le> 15" by simp
  from score_at_least_15[where w = acme and p = speaker and st = exhausted and leads = "[speaker, jane]"
      and ?st0.0 = exhausted and min_score = 15]
    one run le
  show ?thesis by simp
qed

section \<open>The quota flag\<close>

lemma quiet_append_call:
  "quiet_after_exhaustion (es @ [Call s]) = (quiet_after_exhaustion es \<and> Exhausted \<notin> set es)"
  by (induction es) auto

lemma quiet_append_exhausted:
  "quiet_after_exhaustion (es @ [Exhausted]) = quiet_after_exhaustion es"
  by (induction es) auto

lemma quiet_append_call_exhausted:
  "quiet_after_exhaustion (es @ [Call s, Exhausted])
     = (quiet_after_exhaustion es \<and> Exhausted \<notin> set es)"
  by (induction es) auto

lemma respects_quota_refl: "respects_quota st st"
  by (simp add: respects_quota_def)

lemma respects_quota_trans:
  "respects_quota st st1 \<Longrightarrow> respects_quota st1 st2 \<Longrightarrow> respects_quota st st2"
  by (auto simp: respects_quota_def)

lemma respects_quota_search:
  "respects_quota st (snd (search w q k st))"
  by (simp add: respects_quota_def search_def consistent_def)

lemma search_state:
  "search w q k st = (r, st') \<Longrightarrow> respects_quota st st'"
  using respects_quota_search[of st w q k] by simp

lemma call_then_error:
  assumes "\<not> quota_exceeded st"
  shows "respects_quota st (snd (generate w s p st))"
    and "respects_quota st (on_error e (snd (generate w s p st)))"
  using assms
  by (auto simp: respects_quota_def consistent_def generate_def on_error_def
        quiet_append_call quiet_append_exhausted quiet_append_call_exhausted)

lemma respects_quota_model_score:
  "respects_quota st (snd (model_score w p st))"
proof (cases "MODEL w \<and> \<not> quota_exceeded st")
  case True
  then have q: "\<not> quota_exceeded st" by simp
  obtain r st1 where g: "generate w Score p st = (r, st1)" by (cases "generate w Score p st")
  from call_then_error[OF q, where w = w and s = Score and p = p] g
  have "respects_quota st st1" "\<And>e. respects_quota st (on_error e st1)" by simp_all
  with True g show ?thesis
    by (auto simp: model_score_def split: sum.splits option.splits)
next
  case False
  then show ?thesis by (auto simp: model_score_def respects_quota_refl)
qed

lemma respects_quota_model_names:
  "respects_quota st (snd (model_names w snippets st))"
proof (cases "MODEL w \<and> \<not> quota_exceeded st")
  case True
  then have q: "\<not> quota_exceeded st" by simp
  obtain r st1 where g: "generate w Names (NamesPrompt snippets) st = (r, st1)"
    by (cases "generate w Names (NamesPrompt snippets) st")
  from call_then_error[OF q, where w = w and s = Names and p = "NamesPrompt snippets"] g
  have "respects_quota st st1" "\<And>e. respects_quota st (on_error e st1)" by simp_all
  with True g show ?thesis
    by (auto simp: model_names_def split: sum.splits)
next
  case False
  then show ?thesis by (auto simp: model_names_def respects_quota_refl)
qed

lemma respects_quota_model_contact:
  "respects_quota st (snd (model_contact w p st))"
proof (cases "MODEL w \<and> \<not> quota_exceeded st")
  case True
  then have q: "\<not> quota_exceeded st" by simp
  obtain r st1 where g: "generate w Enrich p st = (r, st1)" by (cases "generate w Enrich p st")
  from call_then_error[OF q, where w = w and s = Enrich and p = p] g
  have "respects_quota st st1" "\<And>e. respects_quota st (on_error e st1)" by simp_all
  with True g show ?thesis
    by (auto simp: model_contact_def split: sum.splits json.splits)
next
  case False
  then show ?thesis by (auto simp: model_contact_def respects_quota_refl)
qed

lemma respects_quota_calculate_score:
  "respects_quota st (snd (calculate_score w p st))"
proof (cases "location p")
  case (JStr l)
  obtain r st1 where s: "search w (FundingQuery (lower (company p))) 5 st = (r, st1)"
    by (cases "search w (FundingQuery (lower (company p))) 5 st")
  have a: "respects_quota st st1" using search_state[OF s] .
  show ?thesis
  proof (cases r)
    case (Inl e)
    with JStr s a show ?thesis by (simp add: calculate_score_def)
  next
    case (Inr fs)
    have "respects_quota st1
            (snd (model_score w (ScorePrompt (lower (company p)) (lower (title p)) (lower l) fs) st1))"
      by (rule respects_quota_model_score)
    with a have "respects_quota st
            (snd (model_score w (ScorePrompt (lower (company p)) (lower (title p)) (lower l) fs) st1))"
      by (rule respects_quota_trans)
    with JStr s Inr show ?thesis
      by (auto simp: calculate_score_def Let_def split: prod.splits)
  qed
qed (simp_all add: calculate_score_def respects_quota_refl)

lemma respects_quota_scrape:
  "respects_quota st (snd (scrape_conference_attendees w st))"
proof -
  obtain r st1 where s: "search w ConferenceQuery 10 st = (r, st1)"
    by (cases "search w ConferenceQuery 10 st")
  have a: "respects_quota st st1" using search_state[OF s] .
  show ?thesis
  proof (cases r)
    case (Inl e)
    with s a show ?thesis by (simp add: scrape_conference_attendees_def)
  next
    case (Inr snippets)
    have "respects_quota st1 (snd (model_names w snippets st1))"
      by (rule respects_quota_model_names)
    with a have "respects_quota st (snd (model_names w snippets st1))"
      by (rule respects_quota_trans)
    with s Inr show ?thesis
      by (auto simp: scrape_conference_attendees_def split: prod.splits sum.splits)
  qed
qed

lemma respects_quota_enrich_person:
  "respects_quota st (snd (enrich_person w p st))"
proof -
  obtain r1 st1 where s1: "search w (LinkedinQuery (name p) (company p)) 5 st = (r1, st1)"
    by (cases "search w (LinkedinQuery (name p) (company p)) 5 st")
  obtain r2 st2 where s2: "search w (EmailQuery (name p) (company p)) 5 st1 = (r2, st2)"
    by (cases "search w (EmailQuery (name p) (company p)) 5 st1")
  obtain r3 st3 where s3: "search w (HeadquartersQuery (company p)) 3 st2 = (r3, st3)"
    by (cases "search w (HeadquartersQuery (company p)) 3 st2")
  have a1: "respects_quota st st1" using search_state[OF s1] .
  have a2: "respects_quota st st2" using a1 search_state[OF s2] by (rule respects_quota_trans)
  have a3: "respects_quota st st3" using a2 search_state[OF s3] by (rule respects_quota_trans)
  have a4: "respects_quota st st4" if "model_contact w pr st3 = (v, st4)" for pr v st4
  proof -
    have "respects_quota st3 st4" using respects_quota_model_contact[of st3 w pr] that by simp
    with a3 show ?thesis by (rule respects_quota_trans)
  qed
  show ?thesis
  proof (cases r1)
    case Inl
    with s1 a1 show ?thesis by (simp add: enrich_person_def Let_def)
  next
    case l: (Inr linkedin_snippets)
    show ?thesis
    proof (cases r2)
      case Inl
      with l s1 s2 a2 show ?thesis by (simp add: enrich_person_def Let_def)
    next
      case m: (Inr email_snippets)
      show ?thesis
      proof (cases r3)
        case Inl
        with l m s1 s2 s3 a3 show ?thesis by (simp add: enrich_person_def Let_def)
      next
        case h: (Inr location_snippets)
        obtain v st4 where
          c: "model_contact w (EnrichPrompt (name p) (company p) linkedin_snippets
                 email_snippets location_snippets) st3 = (v, st4)"
          by (cases "model_contact w (EnrichPrompt (name p) (company p) linkedin_snippets
                 email_snippets location_snippets) st3")
        have "snd (enrich_person w p st) = st4"
          using l m h s1 s2 s3 c
          by (auto simp: enrich_person_def Let_def split: prod.splits sum.splits)
        with a4[OF c] show ?thesis by simp
      qed
    qed
  qed
qed

lemma respects_quota_enrich_loop:
  "respects_quota st (snd (enrich_loop w acc leads st))"
proof (induction leads arbitrary: acc st)
  case Nil
  show ?case by (simp add: respects_quota_refl)
next
  case (Cons lead rest)
  obtain r st1 where e: "enrich_person w lead st = (r, st1)" by (cases "enrich_person w lead st")
  have a: "respects_quota st st1" using respects_quota_enrich_person[of st w lead] e by simp
  show ?case
  proof (cases r)
    case (Inl x)
    with e a show ?thesis by simp
  next
    case (Inr enriched)
    have "respects_quota st1 (snd (enrich_loop w (acc @ [enriched]) rest st1))"
      by (rule Cons.IH)
    with a have "respects_quota st (snd (enrich_loop w (acc @ [enriched]) rest st1))"
      by (rule respects_quota_trans)
    with e Inr show ?thesis by simp
  qed
qed

lemma respects_quota_score_loop:
  "respects_quota st (snd (score_loop w leads st))"
proof (induction leads arbitrary: st)
  case Nil
  show ?case by (simp add: respects_quota_refl)
next
  case (Cons lead rest)
  obtain r st1 where c: "calculate_score w lead st = (r, st1)"
    by (cases "calculate_score w lead st")
  have a: "respects_quota st st1" using respects_quota_calculate_score[of st w lead] c by simp
  show ?case
  proof (cases r)
    case (Inl x)
    with c a show ?thesis by simp
  next
    case (Inr s)
    have "respects_quota st1 (snd (score_loop w rest st1))" by (rule Cons.IH)
    with a have "respects_quota st (snd (score_loop w rest st1))" by (rule respects_quota_trans)
    with c Inr show ?thesis by (auto split: prod.splits sum.splits)
  qed
qed

lemma respects_quota_identification:
  "respects_quota st (snd (identification w st))"
  using respects_quota_scrape[of st w]
  by (auto simp: identification_def respects_quota_refl split: sum.splits prod.splits)

lemma respects_quota_enrichment:
  "respects_quota st (snd (enrichment w leads st))"
  by (simp add: enrichment_def respects_quota_enrich_loop)

lemma respects_quota_ranking:
  "respects_quota st (snd (ranking w leads st))"
  using respects_quota_score_loop[of st w leads]
  by (auto simp: ranking_def split: sum.splits prod.splits)

lemma respects_quota_pipeline:
  "respects_quota st (snd (run_biotech_pipeline w st))"
proof (cases "GEMINI_API_KEY w \<and> EMAIL w")
  case False
  then show ?thesis by (auto simp: run_biotech_pipeline_def respects_quota_refl)
next
  case True
  obtain r1 st1 where i: "identification w st = (r1, st1)" by (cases "identification w st")
  have a1: "respects_quota st st1" using respects_quota_identification[of st w] i by simp
  show ?thesis
  proof (cases r1)
    case Inl
    with True i a1 show ?thesis by (simp add: run_biotech_pipeline_def)
  next
    case l: (Inr leads)
    obtain r2 st2 where e: "enrichment w leads st1 = (r2, st2)"
      by (cases "enrichment w leads st1")
    have "respects_quota st1 st2" using respects_quota_enrichment[of st1 w leads] e by simp
    with a1 have a2: "respects_quota st st2" by (rule respects_quota_trans)
    show ?thesis
    proof (cases r2)
      case Inl
      with True l i e a2 show ?thesis by (simp add: run_biotech_pipeline_def)
    next
      case el: (Inr enriched_leads)
      obtain r3 st3 where r: "ranking w enriched_leads st2 = (r3, st3)"
        by (cases "ranking w enriched_leads st2")
      have "respects_quota st2 st3" using respects_quota_ranking[of st2 w enriched_leads] r by simp
      with a2 have a3: "respects_quota st st3" by (rule respects_quota_trans)
      have "snd (run_biotech_pipeline w st) = st3"
        using True l el i e r by (simp add: run_biotech_pipeline_def split: sum.splits)
      with a3 show ?thesis by simp
    qed
  qed
qed

lemma consistent_initial: "consistent initial"
  by (simp add: consistent_def initial_def)

lemma frame:
  assumes "respects_quota st st'" and "quota_exceeded st"
  shows "quota_exceeded st' \<and> events st' = events st"
  using assms by (simp add: respects_quota_def)

lemma signal_at_site:
  assumes "MODEL w" and "\<not> quota_exceeded st" and "quota_signal e"
  shows "generate_content w (llm_calls st) (NamesPrompt snippets) = Inl e
           \<Longrightarrow> quota_exceeded (snd (model_names w snippets st))"
    and "generate_content w (llm_calls st) pr = Inl e
           \<Longrightarrow> quota_exceeded (snd (model_contact w pr st))"
    and "generate_content w (llm_calls st) pr = Inl e
           \<Longrightarrow> quota_exceeded (snd (model_score w pr st))"
  using assms
  by (simp_all add: model_names_def model_contact_def model_score_def generate_def on_error_def)

text \<open>
  C3. The flag \<open>quota_exceeded\<close> is never reset and, once it is set, the extraction model is
  not called again: from a state with the flag set, each of the three call sites (name
  extraction, enrichment, scoring) and the whole pipeline leave the flag set and add no call to
  the trace; in the trace of a run from the initial state no call follows the setting of the
  flag, and the flag is set exactly when that event is in the trace; and a call that fails with
  a rate-limit or quota signal, at any of the three sites, sets the flag.
\<close>

theorem quota_exhaustion_is_final:
  "(quota_exceeded st \<longrightarrow>
       (quota_exceeded (snd (scrape_conference_attendees w st))
          \<and> events (snd (scrape_conference_attendees w st)) = events st)
     \<and> (quota_exceeded (snd (enrich_person w p st))
          \<and> events (snd (enrich_person w p st)) = events st)
     \<and> (quota_exceeded (snd (calculate_score w p st))
          \<and> events (snd (calculate_score w p st)) = events st)
     \<and> (quota_exceeded (snd (run_biotech_pipeline w st))
          \<and> events (snd (run_biotech_pipeline w st)) = events st))
   \<and> quiet_after_exhaustion (events (snd (run_biotech_pipeline w initial)))
   \<and> (quota_exceeded (snd (run_biotech_pipeline w initial))
        \<longleftrightarrow> Exhausted \<in> set (events (snd (run_biotech_pipeline w initial))))
   \<and> (MODEL w \<and> \<not> quota_exceeded st0 \<and> quota_signal e \<longrightarrow>
        (generate_content w (llm_calls st0) (NamesPrompt snippets) = Inl e
           \<longrightarrow> quota_exceeded (snd (model_names w snippets st0)))
      \<and> (generate_content w (llm_calls st0) pr = Inl e
           \<longrightarrow> quota_exceeded (snd (model_contact w pr st0))
               \<and> quota_exceeded (snd (model_score w pr st0))))"
proof -
  have sites: "(quota_exceeded (snd (scrape_conference_attendees w st))
          \<and> events (snd (scrape_conference_attendees w st)) = events st)
     \<and> (quota_exceeded (snd (enrich_person w p st))
          \<and> events (snd (enrich_person w p st)) = events st)
     \<and> (quota_exceeded (snd (calculate_score w p st))
          \<and> events (snd (calculate_score w p st)) = events st)
     \<and> (quota_exceeded (snd (run_biotech_pipeline w st))
          \<and> events (snd (run_biotech_pipeline w st)) = events st)"
    if q: "quota_exceeded st"
    using frame[OF respects_quota_scrape q] frame[OF respects_quota_enrich_person q]
      frame[OF respects_quota_calculate_score q] frame[OF respects_quota_pipeline q]
    by simp
  have "consistent (snd (run_biotech_pipeline w initial))"
    using respects_quota_pipeline[of initial w] consistent_initial
    by (simp add: respects_quota_def)
  then have trace: "quiet_after_exhaustion (events (snd (run_biotech_pipeline w initial)))"
      "quota_exceeded (snd (run_biotech_pipeline w initial))
        \<longleftrightarrow> Exhausted \<in> set (events (snd (run_biotech_pipeline w initial)))"
    by (simp_all add: consistent_def)
  from sites trace signal_at_site[of w st0 e] show ?thesis by blast
qed

theorem quota_exhaustion_is_final_witness:
  "quota_exceeded exhausted
   \<and> events (snd (scrape_conference_attendees throttled exhausted)) = [Call Names, Exhausted]
   \<and> events (snd (enrich_person throttled jane exhausted)) = [Call Names, Exhausted]
   \<and> events (snd (calculate_score throttled jane exhausted)) = [Call Names, Exhausted]
   \<and> events (snd (run_biotech_pipeline throttled exhausted)) = [Call Names, Exhausted]
   \<and> snd (run_biotech_pipeline throttled initial)
       = \<lparr>quota_exceeded = True, searches = 17, events = [Call Names, Exhausted]\<rparr>
   \<and> quiet_after_exhaustion [Call Names, Exhausted]
   \<and> MODEL throttled \<and> \<not> quota_exceeded initial \<and> quota_signal quota_error
   \<and> generate_content throttled (llm_calls initial) (NamesPrompt []) = Inl quota_error
   \<and> generate_content throttled (llm_calls initial) (ScorePrompt [] [] [] []) = Inl quota_error
   \<and> quota_exceeded (snd (model_names throttled [] initial))
   \<and> quota_exceeded (snd (model_contact throttled (ScorePrompt [] [] [] []) initial))
   \<and> quota_exceeded (snd (model_score throttled (ScorePrompt [] [] [] []) initial))"
proof -
  have q: "quota_exceeded exhausted" "events exhausted = [Call Names, Exhausted]"
    by code_simp+
  have run: "snd (run_biotech_pipeline throttled initial)
       = \<lparr>quota_exceeded = True, searches = 17, events = [Call Names, Exhausted]\<rparr>"
    by code_simp
  have pre: "MODEL throttled" "\<not> quota_exceeded initial" "quota_signal quota_error"
      "generate_content throttled (llm_calls initial) (NamesPrompt []) = Inl quota_error"
      "generate_content throttled (llm_calls initial) (ScorePrompt [] [] [] []) = Inl quota_error"
    by code_simp+
  from quota_exhaustion_is_final[where w = throttled and st = exhausted and p = jane
      and ?st0.0 = initial and e = quota_error and snippets = "[]"
      and pr = "ScorePrompt [] [] [] []"] q run pre
  show ?thesis by simp
qed

section \<open>The enrichment stage\<close>

lemma enrich_person_keeps:
  assumes "enrich_person w p st = (Inr p', st')"
  shows "name p' = name p \<and> title p' = title p \<and> company p' = company p
         \<and> source p' = source p \<and> has_recent_paper p' = has_recent_paper p"
  using assms
  by (auto simp: enrich_person_def Let_def split: prod.splits sum.splits if_splits)

lemma enrich_loop_shape:
  "enrich_loop w acc leads st = (Inr out, st') \<Longrightarrow>
     \<exists>new. out = acc @ new
        \<and> list_all2 (\<lambda>lead enriched. \<exists>s s'. enrich_person w lead s = (Inr enriched, s')) leads new"
proof (induction leads arbitrary: acc st)
  case Nil
  then show ?case by simp
next
  case (Cons lead rest)
  from Cons.prems obtain enriched st1 where
    e: "enrich_person w lead st = (Inr enriched, st1)" and
    r: "enrich_loop w (acc @ [enriched]) rest st1 = (Inr out, st')"
    by (auto split: prod.splits sum.splits)
  from Cons.IH[OF r] obtain new where
    n: "out = (acc @ [enriched]) @ new"
       "list_all2 (\<lambda>lead enriched. \<exists>s s'. enrich_person w lead s = (Inr enriched, s')) rest new"
    by blast
  from e n have "out = acc @ (enriched # new)
      \<and> list_all2 (\<lambda>lead enriched. \<exists>s s'. enrich_person w lead s = (Inr enriched, s'))
           (lead # rest) (enriched # new)"
    by auto
  then show ?case by blast
qed

lemma enrichment_shape:
  assumes "enrichment w leads st = (Inr out, st')"
  shows "list_all2 (\<lambda>lead enriched. \<exists>s s'. enrich_person w lead s = (Inr enriched, s'))
           (take 30 leads) out"
  using enrich_loop_shape[of w "[]" "take 30 leads" st out st'] assms
  by (simp add: enrichment_def)

lemma ranking_length:
  assumes "ranking w leads st = (Inr ranked, st')"
  shows "length ranked = length leads"
proof -
  from ranking_cases[OF assms] obtain scored where
    sl: "score_loop w leads st = (Inr scored, st')" and
    rk: "ranked = rev (sort_key score_key (rev scored))"
    by blast
  from score_loop_shape[OF sl] have "length scored = length leads" by auto
  with rk show ?thesis by simp
qed

text \<open>
  C9. The enrichment stage enriches at most 30 leads: its output has as many members as the
  input, up to 30, and is member by member the enrichment of the first 30 input leads, in
  order and under their names; two inputs with the same first 30 leads give the same
  output, so the leads after the 30th have no influence on it, and they are not in the
  pipeline's ranked list either, which has at most 30 members (they are dropped, not passed
  through).
\<close>

theorem enrichment_first_30:
  "(enrichment w leads st = (Inr out, st') \<longrightarrow>
       length out = min (length leads) 30
     \<and> list_all2 (\<lambda>lead enriched. \<exists>s s'. enrich_person w lead s = (Inr enriched, s'))
          (take 30 leads) out
     \<and> map name out = map name (take 30 leads))
   \<and> (take 30 other_leads = take 30 leads
        \<longrightarrow> enrichment w other_leads st = enrichment w leads st)
   \<and> (run_biotech_pipeline w st = (Inr (Some ranked), st'') \<longrightarrow> length ranked \<le> 30)"
proof -
  have first: "length out = min (length leads) 30
     \<and> list_all2 (\<lambda>lead enriched. \<exists>s s'. enrich_person w lead s = (Inr enriched, s'))
          (take 30 leads) out
     \<and> map name out = map name (take 30 leads)"
    if e: "enrichment w leads st = (Inr out, st')"
  proof -
    have l: "list_all2 (\<lambda>lead enriched. \<exists>s s'. enrich_person w lead s = (Inr enriched, s'))
               (take 30 leads) out"
      using enrichment_shape[OF e] .
    then have len: "length out = min (length leads) 30"
      by (auto dest: list_all2_lengthD)
    from l have "list_all2 (\<lambda>lead enriched. name enriched = name lead) (take 30 leads) out"
      by (rule list_all2_mono) (auto dest: enrich_person_keeps)
    then have "map name out = map name (take 30 leads)"
      by (induction rule: list_all2_induct) simp_all
    with l len show ?thesis by simp
  qed
  have rest: "enrichment w other_leads st = enrichment w leads st"
    if "take 30 other_leads = take 30 leads"
    using that by (simp add: enrichment_def)
  have out: "length ranked \<le> 30"
    if r: "run_biotech_pipeline w st = (Inr (Some ranked), st'')"
  proof -
    from r obtain ls st1 enriched st2 where
      e: "enrichment w ls st1 = (Inr enriched, st2)" and
      k: "ranking w enriched st2 = (Inr ranked, st'')"
      by (auto simp: run_biotech_pipeline_def split: if_splits prod.splits sum.splits)
    from enrichment_shape[OF e] have "length enriched = min (length ls) 30"
      by (auto dest: list_all2_lengthD)
    with ranking_length[OF k] show ?thesis by simp
  qed
  from first rest out show ?thesis by blast
qed


theorem enrichment_first_30_witness:
  "enrichment acme (replicate 31 speaker) exhausted
     = (Inr (replicate 30 speaker_enriched),
        \<lparr>quota_exceeded = True, searches = 91, events = [Call Names, Exhausted]\<rparr>)
   \<and> length (replicate 30 speaker_enriched) = min (length (replicate 31 speaker)) 30
   \<and> take 30 (replicate 30 speaker) = take 30 (replicate 31 speaker)
   \<and> enrichment acme (replicate 30 speaker) exhausted
       = enrichment acme (replicate 31 speaker) exhausted
   \<and> run_biotech_pipeline acme initial = (Inr (Some acme_ranked), acme_final)
   \<and> length acme_ranked \<le> 30"
proof -
  have run: "enrichment acme (replicate 31 speaker) exhausted
     = (Inr (replicate 30 speaker_enriched),
        \<lparr>quota_exceeded = True, searches = 91, events = [Call Names, Exhausted]\<rparr>)"
    by code_simp
  have same: "take 30 (replicate 30 speaker) = take 30 (replicate 31 speaker)"
    by simp
  have pipeline: "run_biotech_pipeline acme initial = (Inr (Some acme_ranked), acme_final)"
    by code_simp
  have a: "length (replicate 30 speaker_enriched) = min (length (replicate 31 speaker)) 30
      \<and> enrichment acme (replicate 30 speaker) exhausted
          = enrichment acme (replicate 31 speaker) exhausted"
    using enrichment_first_30[where w = acme and leads = "replicate 31 speaker"
        and st = exhausted and other_leads = "replicate 30 speaker"] run same
    by blast
  have b: "length acme_ranked \<le> 30"
    using enrichment_first_30[where w = acme and st = initial and ranked = acme_ranked]
      pipeline
    by blast
  from run same pipeline a b show ?thesis by simp
qed

section \<open>The synthesized contact values\<close>

















section \<open>Fetching the papers\<close>

lemma citation_leads_fail:
  "p \<in> set pmids \<Longrightarrow> fetch_paper_details w p = Inl e \<Longrightarrow>
     \<exists>e'. citation_leads w leads pmids = Inl e'"
proof (induction pmids arbitrary: leads)
  case Nil
  then show ?case by simp
next
  case (Cons q pmids)
  show ?case
  proof (cases "fetch_paper_details w q")
    case (Inl x)
    then show ?thesis by simp
  next
    case (Inr d)
    with Cons.prems have "p \<in> set pmids" by auto
    from Cons.IH[OF this Cons.prems(2)] Inr show ?thesis by simp
  qed
qed

lemma citation_leads_ok:
  "citation_leads w leads pmids = Inr out \<Longrightarrow>
     (\<forall>p \<in> set pmids. \<exists>d. fetch_paper_details w p = Inr d)
     \<and> out = leads @ leads_of_papers w pmids"
proof (induction pmids arbitrary: leads)
  case Nil
  then show ?case by (simp add: leads_of_papers_def)
next
  case (Cons q pmids)
  from Cons.prems obtain d where
    d: "fetch_paper_details w q = Inr d" and
    r: "citation_leads w (leads @ map citation_lead (authors d)) pmids = Inr out"
    by (auto split: sum.splits)
  from Cons.IH[OF r] d show ?case by (simp add: leads_of_papers_def)
qed

lemma identification_fail:
  assumes "search_pubmed w topic_keywords 30 = Inr pmids"
      and "p \<in> set pmids" and "fetch_paper_details w p = Inl e"
  shows "\<exists>e'. identification w st = (Inl e', st)"
proof -
  from citation_leads_fail[OF assms(2,3)] obtain e' where
    "citation_leads w [] pmids = Inl e'" by blast
  with assms(1) show ?thesis by (simp add: identification_def)
qed

lemma identification_ok:
  assumes "identification w st = (Inr leads, st')"
  shows "\<exists>pmids conf_leads.
           search_pubmed w topic_keywords 30 = Inr pmids
         \<and> (\<forall>p \<in> set pmids. \<exists>d. fetch_paper_details w p = Inr d)
         \<and> scrape_conference_attendees w st = (Inr conf_leads, st')
         \<and> leads = leads_of_papers w pmids
                    @ map (\<lambda>lead. lead\<lparr>has_recent_paper := Some False\<rparr>) conf_leads"
proof -
  from assms obtain pmids where s: "search_pubmed w topic_keywords 30 = Inr pmids"
    by (cases "search_pubmed w topic_keywords 30") (simp_all add: identification_def)
  from assms s obtain cl where c: "citation_leads w [] pmids = Inr cl"
    by (cases "citation_leads w [] pmids") (simp_all add: identification_def)
  from assms s c obtain conf_leads where
    a: "scrape_conference_attendees w st = (Inr conf_leads, st')" and
    l: "leads = cl @ map (\<lambda>lead. lead\<lparr>has_recent_paper := Some False\<rparr>) conf_leads"
    by (auto simp: identification_def split: prod.splits sum.splits)
  from citation_leads_ok[OF c] s a l show ?thesis by auto
qed

text \<open>
  C8, as the code has it. Nothing catches a failure of \<open>fetch_paper_details\<close>: when the fetch
  of one identifier of the search result fails, the identification stage stops with an
  exception, \<open>run_biotech_pipeline\<close> fails with the same exception and produces no lead, and
  the state is as before. The stage returns leads only when the fetch of every identifier
  succeeds, and then they are the leads of all papers, in order, followed by the conference
  leads.
\<close>

theorem fetch_failure_aborts:
  "(GEMINI_API_KEY w \<and> EMAIL w \<and> search_pubmed w topic_keywords 30 = Inr pmids
      \<and> p \<in> set pmids \<and> fetch_paper_details w p = Inl e
      \<longrightarrow> (\<exists>e'. identification w st = (Inl e', st)
                \<and> run_biotech_pipeline w st = (Inl e', st)))
   \<and> (identification w st = (Inr leads, st') \<longrightarrow>
        (\<exists>ids conf_leads.
            search_pubmed w topic_keywords 30 = Inr ids
          \<and> (\<forall>i \<in> set ids. \<exists>d. fetch_paper_details w i = Inr d)
          \<and> scrape_conference_attendees w st = (Inr conf_leads, st')
          \<and> leads = leads_of_papers w ids
                     @ map (\<lambda>lead. lead\<lparr>has_recent_paper := Some False\<rparr>) conf_leads))"
proof -
  have abort: "\<exists>e'. identification w st = (Inl e', st)
                \<and> run_biotech_pipeline w st = (Inl e', st)"
    if "GEMINI_API_KEY w" "EMAIL w" "search_pubmed w topic_keywords 30 = Inr pmids"
       "p \<in> set pmids" "fetch_paper_details w p = Inl e"
  proof -
    from identification_fail[OF that(3-5)] obtain e' where
      i: "identification w st = (Inl e', st)" by blast
    with that(1,2) have "run_biotech_pipeline w st = (Inl e', st)"
      by (simp add: run_biotech_pipeline_def)
    with i show ?thesis by blast
  qed
  from abort identification_ok show ?thesis by blast
qed

theorem fetch_failure_aborts_witness:
  "GEMINI_API_KEY broken \<and> EMAIL broken
   \<and> search_pubmed broken topic_keywords 30 = Inr [''38000001'', ''38000002'']
   \<and> ''38000002'' \<in> set [''38000001'', ''38000002'']
   \<and> fetch_paper_details broken ''38000002'' = Inl bad_gateway
   \<and> identification broken initial = (Inl bad_gateway, initial)
   \<and> run_biotech_pipeline broken initial = (Inl bad_gateway, initial)
   \<and> identification acme initial
       = (Inr (acme_citation_leads @ acme_conference_leads),
          \<lparr>quota_exceeded = True, searches = 1, events = [Call Names, Exhausted]\<rparr>)
   \<and> search_pubmed acme topic_keywords 30 = Inr [''38000001'', ''38000002'']
   \<and> leads_of_papers acme [''38000001'', ''38000002''] = acme_citation_leads"
proof -
  have pre: "GEMINI_API_KEY broken" "EMAIL broken"
      "search_pubmed broken topic_keywords 30 = Inr [''38000001'', ''38000002'']"
      "''38000002'' \<in> set [''38000001'', ''38000002'']"
      "fetch_paper_details broken ''38000002'' = Inl bad_gateway"
    by code_simp+
  have runs: "identification broken initial = (Inl bad_gateway, initial)"
      "run_biotech_pipeline broken initial = (Inl bad_gateway, initial)"
    by code_simp+
  have ok: "identification acme initial
       = (Inr (acme_citation_leads @ acme_conference_leads),
          \<lparr>quota_exceeded = True, searches = 1, events = [Call Names, Exhausted]\<rparr>)"
      "search_pubmed acme topic_keywords 30 = Inr [''38000001'', ''38000002'']"
      "leads_of_papers acme [''38000001'', ''38000002''] = acme_citation_leads"
    by code_simp+
  from fetch_failure_aborts[where w = broken and pmids = "[''38000001'', ''38000002'']"
      and p = "''38000002''" and e = bad_gateway and st = initial] pre runs
  have "\<exists>e'. identification broken initial = (Inl e', initial)" by blast
  moreover from fetch_failure_aborts[where w = acme and st = initial] ok(1)
  have "\<exists>ids. search_pubmed acme topic_keywords 30 = Inr ids" by blast
  ultimately show ?thesis using pre runs ok by simp
qed

text \<open>
  C8 as stated fails: in the world \<open>broken\<close> the search finds two papers, the first has two
  authors with both names, the fetch of the second fails; no lead is produced and the pipeline
  fails with that exception.
\<close>

theorem fetch_failure_not_skipped:
  "search_pubmed broken topic_keywords 30 = Inr [''38000001'', ''38000002'']
   \<and> leads_of_papers broken [''38000001''] = acme_citation_leads
   \<and> fetch_paper_details broken ''38000002'' = Inl bad_gateway
   \<and> identification broken initial = (Inl bad_gateway, initial)
   \<and> run_biotech_pipeline broken initial = (Inl bad_gateway, initial)"
  by code_simp

section \<open>The leads of the identification stage\<close>

lemma match_name_nonempty: "match_name s = Some (m, rest) \<Longrightarrow> m \<noteq> []"
  by (auto simp: match_name_def split: option.splits list.splits if_splits)

lemma findall_names_nonempty: "m \<in> set (findall_names s) \<Longrightarrow> m \<noteq> []"
proof (induction s rule: findall_names.induct)
  case 1
  then show ?case by simp
next
  case (2 c cs)
  show ?case
  proof (cases "match_name (c # cs)")
    case None
    with 2 show ?thesis by simp
  next
    case (Some mr)
    obtain m' rest where mr: "mr = (m', rest)" by (cases mr)
    with Some 2 match_name_nonempty[of "c # cs" m' rest] show ?thesis by auto
  qed
qed

lemma split_on_nonempty: "split_on sep s \<noteq> []"
  by (induction s) (auto split: list.splits)

lemma hd_split_on: "hd (split_on sep s) = takeWhile (\<lambda>c. c \<noteq> sep) s"
  by (induction s) (auto simp: split_on_nonempty split: list.splits)

lemma company_empty:
  "(company (citation_lead a) = []) = startswith (affiliation a) '',''"
proof (cases "affiliation a")
  case Nil
  then show ?thesis by (simp add: citation_lead_def)
next
  case (Cons c cs)
  then show ?thesis by (simp add: citation_lead_def hd_split_on del: split_on.simps)
qed

lemma author_details_nonempty:
  assumes "author_details x = Some a"
  shows "author_name a \<noteq> [] \<and> author_location a \<noteq> []"
  using assms
  by (auto simp: author_details_def Let_def split: option.splits if_splits)

lemma fetch_authors_nonempty:
  assumes "fetch_paper_details w p = Inr d" and "a \<in> set (authors d)"
  shows "author_name a \<noteq> [] \<and> author_location a \<noteq> []"
proof -
  from assms obtain xs where "authors d = List.map_filter author_details xs"
    by (auto simp: fetch_paper_details_def split: sum.splits list.splits option.splits)
  with assms(2) obtain x where "author_details x = Some a"
    by (auto simp: List.map_filter_def)
  then show ?thesis by (rule author_details_nonempty)
qed

lemma leads_of_papers_member:
  assumes "lead \<in> set (leads_of_papers w pmids)"
  shows "\<exists>a. lead = citation_lead a \<and> author_name a \<noteq> [] \<and> author_location a \<noteq> []"
proof -
  from assms obtain p where
    p: "lead \<in> set (case fetch_paper_details w p of
                      Inl e \<Rightarrow> []
                    | Inr d \<Rightarrow> map citation_lead (authors d))"
    by (auto simp: leads_of_papers_def)
  show ?thesis
  proof (cases "fetch_paper_details w p")
    case (Inl e)
    with p show ?thesis by simp
  next
    case (Inr d)
    with p obtain a where "a \<in> set (authors d)" "lead = citation_lead a" by auto
    with fetch_authors_nonempty[OF Inr] show ?thesis by blast
  qed
qed

lemma heuristic_names_strings:
  assumes "\<not> truthy v" and "heuristic_names w v snippets = Inr names"
      and "set_order_ok w"
  shows "\<exists>ns. names = JArr (map JStr ns) \<and> length ns \<le> 20 \<and> (\<forall>n \<in> set ns. n \<noteq> [])"
proof (cases v)
  case (JArr xs)
  let ?all = "concat (map findall_names snippets)"
  have "set (take 20 (set_order w ?all)) \<subseteq> set ?all"
    using assms(3) set_take_subset[of 20 "set_order w ?all"] by (simp add: set_order_ok_def)
  then have "\<forall>n \<in> set (take 20 (set_order w ?all)). n \<noteq> []"
    using findall_names_nonempty by auto
  with JArr assms(2) show ?thesis
    by (intro exI[of _ "take 20 (set_order w ?all)"]) (auto simp: heuristic_names_def)
next
  case (JStr s)
  with assms(2) have "names = JArr (map JStr [])"
    by (auto simp: heuristic_names_def split: if_splits)
  then show ?thesis by (intro exI[of _ "[]"]) simp
next
  case (JObj kvs)
  with assms(2) have "names = JArr (map JStr [])"
    by (auto simp: heuristic_names_def split: if_splits)
  then show ?thesis by (intro exI[of _ "[]"]) simp
qed (use assms(2) in \<open>auto simp: heuristic_names_def split: if_splits\<close>)

lemma scrape_cases:
  assumes "scrape_conference_attendees w st = (Inr conf_leads, st')"
  shows "\<exists>v names ns snippets.
           ddgs_text w (searches st) ConferenceQuery 10 = Inr snippets
         \<and> extracted_names w st = Some v
         \<and> (if \<not> truthy v then heuristic_names w v snippets else Inr v) = Inr names
         \<and> iterate names = Inr ns \<and> conf_leads = map attendee ns"
proof -
  from assms obtain snippets where
    s: "ddgs_text w (searches st) ConferenceQuery 10 = Inr snippets"
    by (cases "ddgs_text w (searches st) ConferenceQuery 10")
       (simp_all add: scrape_conference_attendees_def search_def)
  obtain v st2 where m: "model_names w snippets (st\<lparr>searches := Suc (searches st)\<rparr>) = (v, st2)"
    by (cases "model_names w snippets (st\<lparr>searches := Suc (searches st)\<rparr>)")
  have x: "extracted_names w st = Some v"
    using s m by (simp add: extracted_names_def)
  let ?h = "if \<not> truthy v then heuristic_names w v snippets else Inr v"
  from assms s m obtain names where h: "?h = Inr names"
    by (cases ?h) (simp_all add: scrape_conference_attendees_def search_def)
  from assms s m h obtain ns where i: "iterate names = Inr ns"
    by (cases "iterate names") (simp_all add: scrape_conference_attendees_def search_def)
  from assms s m h i have "conf_leads = map attendee ns"
    by (simp add: scrape_conference_attendees_def search_def)
  with s x h i show ?thesis by blast
qed

lemma conference_lead_fields:
  assumes "scrape_conference_attendees w st = (Inr conf_leads, st')"
      and "lead \<in> set conf_leads"
  shows "source lead = ''Conference'' \<and> title lead = ''Speaker'' \<and> company lead = ''Unknown''
         \<and> location lead = JStr ''Unknown'' \<and> has_recent_paper lead = None
         \<and> linkedin lead = None \<and> email lead = None \<and> score lead = None"
proof -
  from scrape_cases[OF assms(1)] assms(2) obtain n where "lead = attendee n" by auto
  then show ?thesis by (simp add: attendee_def)
qed

lemma fallback_names:
  assumes "scrape_conference_attendees w st = (Inr conf_leads, st')"
      and "extracted_names w st = Some v" and "\<not> truthy v" and "set_order_ok w"
  shows "length conf_leads \<le> 20
         \<and> (\<forall>lead \<in> set conf_leads. \<exists>n. name lead = JStr n \<and> n \<noteq> [])"
proof -
  from scrape_cases[OF assms(1)] assms(2,3) obtain names ns snippets where
    h: "heuristic_names w v snippets = Inr names" and
    i: "iterate names = Inr ns" and c: "conf_leads = map attendee ns"
    by auto
  from heuristic_names_strings[OF assms(3) h assms(4)] obtain ss where
    ss: "names = JArr (map JStr ss)" "length ss \<le> 20" "\<forall>n \<in> set ss. n \<noteq> []"
    by blast
  with i have "ns = map JStr ss" by simp
  with c ss show ?thesis by (auto simp: attendee_def)
qed

lemma letter_not_blank: "is_upper c \<or> is_lower c \<Longrightarrow> c \<noteq> CHR '' ''"
  by (auto simp: is_upper_def is_lower_def)

lemma match_word_shape:
  assumes "match_word s = Some (w, r)"
  shows "capitalized_word w \<and> CHR '' '' \<notin> set w"
proof -
  from assms obtain c cs where
    s: "s = c # cs" and u: "is_upper c" and n: "takeWhile is_lower cs \<noteq> []" and
    w: "w = c # takeWhile is_lower cs"
    by (cases s) (auto split: if_splits)
  have l: "\<forall>x \<in> set (takeWhile is_lower cs). is_lower x"
    by (auto dest: set_takeWhileD)
  then have "list_all is_lower (takeWhile is_lower cs)"
    by (simp add: list_all_iff)
  moreover have "CHR '' '' \<notin> set w"
    using w u l letter_not_blank by auto
  ultimately show ?thesis using w u n by (simp add: capitalized_word_def)
qed

lemma capitalized_pair_intro:
  assumes "capitalized_word a" "CHR '' '' \<notin> set a" "capitalized_word b"
  shows "capitalized_pair (a @ [CHR '' ''] @ b)"
proof -
  have t: "takeWhile (\<lambda>c. c \<noteq> CHR '' '') (a @ [CHR '' ''] @ b) = a"
    using assms(2) by (induction a) auto
  have d: "dropWhile (\<lambda>c. c \<noteq> CHR '' '') (a @ [CHR '' ''] @ b) = CHR '' '' # b"
    using assms(2) by (induction a) auto
  show ?thesis
    unfolding capitalized_pair_def t d using assms(1,3) by simp
qed

lemma match_name_shape:
  assumes "match_name s = Some (m, r)"
  shows "capitalized_pair m"
proof -
  from assms obtain w1 r1 w2 where
    a: "match_word s = Some (w1, CHR '' '' # r1)" and
    b: "match_word r1 = Some (w2, r)" and m: "m = w1 @ [CHR '' ''] @ w2"
    by (auto simp: match_name_def split: option.splits list.splits if_splits)
  from match_word_shape[OF a] match_word_shape[OF b]
  have "capitalized_pair (w1 @ [CHR '' ''] @ w2)"
    by (intro capitalized_pair_intro) simp_all
  with m show ?thesis by simp
qed

lemma findall_names_pairs: "m \<in> set (findall_names s) \<Longrightarrow> capitalized_pair m"
proof (induction s rule: findall_names.induct)
  case 1
  then show ?case by simp
next
  case (2 c cs)
  show ?case
  proof (cases "match_name (c # cs)")
    case None
    with 2 show ?thesis by simp
  next
    case (Some mr)
    obtain m' rest where mr: "mr = (m', rest)" by (cases mr)
    with Some 2 match_name_shape[of "c # cs" m' rest] show ?thesis by auto
  qed
qed

lemma capitalized_pair_nonempty: "capitalized_pair s \<Longrightarrow> s \<noteq> []"
  by (auto simp: capitalized_pair_def capitalized_word_def)

lemma model_names_truthy:
  assumes "fst (model_names w snippets st) = v" and "truthy v"
  shows "\<exists>reply. generate_content w (llm_calls st) (NamesPrompt snippets) = Inr reply
           \<and> json_loads w (unfence reply) = Inr v"
proof (cases "MODEL w \<and> \<not> quota_exceeded st")
  case False
  with assms show ?thesis by (auto simp: model_names_def)
next
  case True
  show ?thesis
  proof (cases "generate_content w (llm_calls st) (NamesPrompt snippets)")
    case (Inl e)
    with True assms show ?thesis by (auto simp: model_names_def generate_def)
  next
    case (Inr reply)
    with True assms show ?thesis
      by (cases "json_loads w (unfence reply)") (auto simp: model_names_def generate_def)
  qed
qed

lemma heuristic_names_matches:
  assumes "\<not> truthy v" and "heuristic_names w v snippets = Inr names"
      and "set_order_ok w"
  shows "\<exists>ns. names = JArr (map JStr ns)
           \<and> (\<forall>n \<in> set ns. \<exists>s \<in> set snippets. n \<in> set (findall_names s))"
proof (cases v)
  case (JArr xs)
  let ?all = "concat (map findall_names snippets)"
  have "set (take 20 (set_order w ?all)) \<subseteq> set ?all"
    using assms(3) set_take_subset[of 20 "set_order w ?all"] by (simp add: set_order_ok_def)
  then have "\<forall>n \<in> set (take 20 (set_order w ?all)). \<exists>s \<in> set snippets. n \<in> set (findall_names s)"
    by auto
  with JArr assms(2) show ?thesis
    by (intro exI[of _ "take 20 (set_order w ?all)"]) (auto simp: heuristic_names_def)
next
  case (JStr s)
  with assms(2) have "names = JArr (map JStr [])"
    by (auto simp: heuristic_names_def split: if_splits)
  then show ?thesis by (intro exI[of _ "[]"]) simp
next
  case (JObj kvs)
  with assms(2) have "names = JArr (map JStr [])"
    by (auto simp: heuristic_names_def split: if_splits)
  then show ?thesis by (intro exI[of _ "[]"]) simp
qed (use assms(2) in \<open>auto simp: heuristic_names_def split: if_splits\<close>)

lemma author_details_names:
  assumes "author_details x = Some a"
  shows "\<exists>given family. ForeName x = Some given \<and> LastName x = Some family
           \<and> author_name a = given @ '' '' @ family"
  using assms
  by (auto simp: author_details_def Let_def split: option.splits)

lemma company_of_affiliation:
  "affiliation a \<noteq> [] \<Longrightarrow>
     company (citation_lead a) = takeWhile (\<lambda>c. c \<noteq> CHR '','') (affiliation a)"
  by (simp add: citation_lead_def hd_split_on del: split_on.simps)

lemma leads_of_papers_origin:
  assumes "lead \<in> set (leads_of_papers w ids)"
  shows "\<exists>i article articles xs x a.
           i \<in> set ids \<and> efetch w i = Inr (article # articles)
         \<and> AuthorList article = Some xs \<and> x \<in> set xs
         \<and> author_details x = Some a \<and> lead = citation_lead a"
proof -
  from assms obtain i where
    i: "i \<in> set ids" and
    p: "lead \<in> set (case fetch_paper_details w i of
                      Inl e \<Rightarrow> []
                    | Inr d \<Rightarrow> map citation_lead (authors d))"
    by (auto simp: leads_of_papers_def)
  show ?thesis
  proof (cases "fetch_paper_details w i")
    case (Inl e)
    with p show ?thesis by simp
  next
    case (Inr d)
    with p obtain a where a: "a \<in> set (authors d)" "lead = citation_lead a" by auto
    from Inr obtain article articles xs where
      f: "efetch w i = Inr (article # articles)" "AuthorList article = Some xs"
         "authors d = List.map_filter author_details xs"
      by (auto simp: fetch_paper_details_def split: sum.splits list.splits option.splits)
    with a(1) obtain x where "x \<in> set xs" "author_details x = Some a"
      by (auto simp: List.map_filter_def)
    with i f a(2) show ?thesis by blast
  qed
qed

lemma set_order_ok_acme: "set_order_ok acme"
  by (simp add: set_order_ok_def acme_def)

lemma citation_lead_described:
  assumes "lead \<in> set (leads_of_papers w ids)"
  shows "\<exists>i article articles xs x given family a.
            i \<in> set ids
          \<and> efetch w i = Inr (article # articles) \<and> AuthorList article = Some xs \<and> x \<in> set xs
          \<and> ForeName x = Some given \<and> LastName x = Some family \<and> author_details x = Some a
          \<and> lead = citation_lead a
          \<and> source lead = ''PubMed'' \<and> title lead = ''Researcher''
          \<and> has_recent_paper lead = Some True
          \<and> name lead = JStr (given @ '' '' @ family) \<and> given @ '' '' @ family \<noteq> []
          \<and> location lead = JStr (author_location a) \<and> author_location a \<noteq> []
          \<and> (affiliation a = [] \<longrightarrow> company lead = ''Unknown'')
          \<and> (affiliation a \<noteq> []
                \<longrightarrow> company lead = takeWhile (\<lambda>c. c \<noteq> CHR '','') (affiliation a))
          \<and> (\<not> startswith (affiliation a) '','' \<longrightarrow> company lead \<noteq> [])"
proof -
  from leads_of_papers_origin[OF assms] obtain i article articles xs x a where
    o: "i \<in> set ids" "efetch w i = Inr (article # articles)" "AuthorList article = Some xs"
       "x \<in> set xs" "author_details x = Some a" "lead = citation_lead a"
    by blast
  from author_details_names[OF o(5)] obtain given family where
    n: "ForeName x = Some given" "LastName x = Some family"
       "author_name a = given @ '' '' @ family"
    by blast
  have f: "source lead = ''PubMed''" "title lead = ''Researcher''"
      "has_recent_paper lead = Some True" "name lead = JStr (given @ '' '' @ family)"
      "location lead = JStr (author_location a)"
    using o(6) n(3) by (simp_all add: citation_lead_def)
  have l: "author_location a \<noteq> []"
    using author_details_nonempty[OF o(5)] by simp
  have c1: "affiliation a = [] \<longrightarrow> company lead = ''Unknown''"
    using o(6) by (simp add: citation_lead_def)
  have c2: "affiliation a \<noteq> []
              \<longrightarrow> company lead = takeWhile (\<lambda>c. c \<noteq> CHR '','') (affiliation a)"
    using o(6) company_of_affiliation[of a] by simp
  have c3: "\<not> startswith (affiliation a) '','' \<longrightarrow> company lead \<noteq> []"
    using company_empty[of a] o(6) by simp
  have ne: "given @ '' '' @ family \<noteq> []" by simp
  from o n f l c1 c2 c3 ne show ?thesis by blast
qed

lemma conference_lead_described:
  assumes "scrape_conference_attendees w st = (Inr conf_leads, st')"
      and "x \<in> set conf_leads"
  shows "\<exists>snippets v.
            ddgs_text w (searches st) ConferenceQuery 10 = Inr snippets
          \<and> extracted_names w st = Some v
          \<and> (truthy v \<longrightarrow>
               (\<exists>reply ns.
                   generate_content w (llm_calls st) (NamesPrompt snippets) = Inr reply
                 \<and> json_loads w (unfence reply) = Inr v
                 \<and> iterate v = Inr ns \<and> name x \<in> set ns))
          \<and> (\<not> truthy v \<and> set_order_ok w \<longrightarrow>
               (\<exists>n s. name x = JStr n \<and> s \<in> set snippets \<and> n \<in> set (findall_names s)
                      \<and> capitalized_pair n \<and> n \<noteq> []))"
proof -
  from scrape_cases[OF assms(1)] obtain v names ns snippets where
    s: "ddgs_text w (searches st) ConferenceQuery 10 = Inr snippets" and
    e: "extracted_names w st = Some v" and
    h: "(if \<not> truthy v then heuristic_names w v snippets else Inr v) = Inr names" and
    i: "iterate names = Inr ns" and c: "conf_leads = map attendee ns"
    by blast
  from assms(2) c have nx: "name x \<in> set ns" by (auto simp: attendee_def)
  have v: "fst (model_names w snippets (st\<lparr>searches := Suc (searches st)\<rparr>)) = v"
    using s e by (simp add: extracted_names_def)
  have t: "\<exists>reply ns.
                   generate_content w (llm_calls st) (NamesPrompt snippets) = Inr reply
                 \<and> json_loads w (unfence reply) = Inr v
                 \<and> iterate v = Inr ns \<and> name x \<in> set ns"
    if "truthy v"
  proof -
    from model_names_truthy[OF v that] obtain reply where
      "generate_content w (llm_calls st) (NamesPrompt snippets) = Inr reply"
      "json_loads w (unfence reply) = Inr v"
      by (auto simp: llm_calls_def)
    moreover from h that have "names = v" by simp
    ultimately show ?thesis using i nx by blast
  qed
  have f: "\<exists>n s. name x = JStr n \<and> s \<in> set snippets \<and> n \<in> set (findall_names s)
                      \<and> capitalized_pair n \<and> n \<noteq> []"
    if "\<not> truthy v" "set_order_ok w"
  proof -
    from h that(1) have "heuristic_names w v snippets = Inr names" by simp
    from heuristic_names_matches[OF that(1) this that(2)] obtain ss where
      ss: "names = JArr (map JStr ss)"
          "\<forall>n \<in> set ss. \<exists>s \<in> set snippets. n \<in> set (findall_names s)"
      by blast
    with i have "ns = map JStr ss" by simp
    with nx obtain n where n: "name x = JStr n" "n \<in> set ss" by auto
    with ss(2) obtain s where m: "s \<in> set snippets" "n \<in> set (findall_names s)" by blast
    from findall_names_pairs[OF m(2)] have "capitalized_pair n" .
    with n m capitalized_pair_nonempty show ?thesis by blast
  qed
  from s e t f show ?thesis by blast
qed

text \<open>
  C5, as the code has it. Every lead that the identification stage returns is
  citation-derived or conference-derived. A citation-derived lead belongs to an author entry
  with both names in the fetched article of an identifier of the search result: its name is
  the given name, a space and the family name, which is not empty; its title is
  \<open>Researcher\<close>; its location is a non-empty string; its company is \<open>Unknown\<close> for an empty
  affiliation and otherwise the text before the first comma of the affiliation, which is not
  empty when the affiliation does not begin with a comma. A conference-derived lead has the
  title \<open>Speaker\<close>, the company \<open>Unknown\<close> and the location \<open>Unknown\<close>. When the extraction
  block yields a true value, that value is the decoded reply of the model and the name of the
  lead is one of its elements, as it is; when it yields a false value, the name is a match of
  the pattern \<open>[A-Z][a-z]+ [A-Z][a-z]+\<close> in a snippet of the conference search, hence not
  empty.
\<close>

theorem identification_lead_fields:
  assumes "identification w st = (Inr leads, st')" and "lead \<in> set leads"
  shows "(\<exists>ids i article articles xs x given family a.
            search_pubmed w topic_keywords 30 = Inr ids \<and> i \<in> set ids
          \<and> efetch w i = Inr (article # articles) \<and> AuthorList article = Some xs \<and> x \<in> set xs
          \<and> ForeName x = Some given \<and> LastName x = Some family \<and> author_details x = Some a
          \<and> lead = citation_lead a
          \<and> source lead = ''PubMed'' \<and> title lead = ''Researcher''
          \<and> has_recent_paper lead = Some True
          \<and> name lead = JStr (given @ '' '' @ family) \<and> given @ '' '' @ family \<noteq> []
          \<and> location lead = JStr (author_location a) \<and> author_location a \<noteq> []
          \<and> (affiliation a = [] \<longrightarrow> company lead = ''Unknown'')
          \<and> (affiliation a \<noteq> []
                \<longrightarrow> company lead = takeWhile (\<lambda>c. c \<noteq> CHR '','') (affiliation a))
          \<and> (\<not> startswith (affiliation a) '','' \<longrightarrow> company lead \<noteq> []))
       \<or> (\<exists>snippets v.
            ddgs_text w (searches st) ConferenceQuery 10 = Inr snippets
          \<and> extracted_names w st = Some v
          \<and> source lead = ''Conference'' \<and> title lead = ''Speaker''
          \<and> company lead = ''Unknown'' \<and> location lead = JStr ''Unknown''
          \<and> has_recent_paper lead = Some False
          \<and> (truthy v \<longrightarrow>
               (\<exists>reply ns.
                   generate_content w (llm_calls st) (NamesPrompt snippets) = Inr reply
                 \<and> json_loads w (unfence reply) = Inr v
                 \<and> iterate v = Inr ns \<and> name lead \<in> set ns))
          \<and> (\<not> truthy v \<and> set_order_ok w \<longrightarrow>
               (\<exists>n s. name lead = JStr n \<and> s \<in> set snippets \<and> n \<in> set (findall_names s)
                      \<and> capitalized_pair n \<and> n \<noteq> [])))"
proof -
  from identification_ok[OF assms(1)] obtain ids conf_leads where
    p: "search_pubmed w topic_keywords 30 = Inr ids" and
    c: "scrape_conference_attendees w st = (Inr conf_leads, st')" and
    l: "leads = leads_of_papers w ids
                @ map (\<lambda>lead. lead\<lparr>has_recent_paper := Some False\<rparr>) conf_leads"
    by blast
  from assms(2) l consider
    (paper) "lead \<in> set (leads_of_papers w ids)"
    | (conf) x where "x \<in> set conf_leads" "lead = x\<lparr>has_recent_paper := Some False\<rparr>"
    by auto
  then show ?thesis
  proof cases
    case paper
    from citation_lead_described[OF paper] p show ?thesis by blast
  next
    case conf
    from conference_lead_fields[OF c conf(1)] conf(2)
    have f: "source lead = ''Conference''" "title lead = ''Speaker''"
        "company lead = ''Unknown''" "location lead = JStr ''Unknown''"
        "has_recent_paper lead = Some False"
      by simp_all
    have n: "name lead = name x" using conf(2) by simp
    from conference_lead_described[OF c conf(1)] f n show ?thesis
      by (intro disjI2) (simp only: n, blast)
  qed
qed

theorem identification_lead_fields_witness:
  "identification acme initial
     = (Inr (acme_citation_leads @ acme_conference_leads),
        \<lparr>quota_exceeded = True, searches = 1, events = [Call Names, Exhausted]\<rparr>)
   \<and> hd acme_citation_leads \<in> set (acme_citation_leads @ acme_conference_leads)
   \<and> last acme_conference_leads \<in> set (acme_citation_leads @ acme_conference_leads)
   \<and> source (hd acme_citation_leads) = ''PubMed''
   \<and> name (hd acme_citation_leads) = JStr ''Ann Roe''
   \<and> company (hd acme_citation_leads) = ''Acme Inc''
   \<and> title (hd acme_citation_leads) = ''Researcher''
   \<and> source (last acme_conference_leads) = ''Conference''
   \<and> extracted_names acme initial = Some (JArr []) \<and> \<not> truthy (JArr [])
   \<and> set_order_ok acme
   \<and> name (last acme_conference_leads) = JStr ''Jane Doe''
   \<and> capitalized_pair ''Jane Doe''
   \<and> fst (identification chatty initial)
       = Inr (acme_citation_leads
              @ map (\<lambda>n. (attendee (JStr n))\<lparr>has_recent_paper := Some False\<rparr>) speakers21)
   \<and> extracted_names chatty initial = Some (JArr (map JStr speakers21))
   \<and> truthy (JArr (map JStr speakers21))
   \<and> JStr ''Speaker U'' \<in> set (map JStr speakers21)"
proof -
  have run: "identification acme initial
     = (Inr (acme_citation_leads @ acme_conference_leads),
        \<lparr>quota_exceeded = True, searches = 1, events = [Call Names, Exhausted]\<rparr>)"
    by code_simp
  have m: "hd acme_citation_leads \<in> set (acme_citation_leads @ acme_conference_leads)"
      "last acme_conference_leads \<in> set (acme_citation_leads @ acme_conference_leads)"
    by code_simp+
  have v: "source (hd acme_citation_leads) = ''PubMed''"
      "name (hd acme_citation_leads) = JStr ''Ann Roe''"
      "company (hd acme_citation_leads) = ''Acme Inc''"
      "source (last acme_conference_leads) = ''Conference''"
      "extracted_names acme initial = Some (JArr [])" "\<not> truthy (JArr [])"
      "name (last acme_conference_leads) = JStr ''Jane Doe''"
    by code_simp+
  have chatty: "identification chatty initial
       = (Inr (acme_citation_leads
              @ map (\<lambda>n. (attendee (JStr n))\<lparr>has_recent_paper := Some False\<rparr>) speakers21),
          \<lparr>quota_exceeded = False, searches = 1, events = [Call Names]\<rparr>)"
    by code_simp
  have cm: "(attendee (JStr ''Speaker U''))\<lparr>has_recent_paper := Some False\<rparr>
              \<in> set (acme_citation_leads
                     @ map (\<lambda>n. (attendee (JStr n))\<lparr>has_recent_paper := Some False\<rparr>) speakers21)"
    by code_simp
  have cv: "extracted_names chatty initial = Some (JArr (map JStr speakers21))"
      "truthy (JArr (map JStr speakers21))"
      "source ((attendee (JStr ''Speaker U''))\<lparr>has_recent_paper := Some False\<rparr>) = ''Conference''"
      "name ((attendee (JStr ''Speaker U''))\<lparr>has_recent_paper := Some False\<rparr>) = JStr ''Speaker U''"
    by code_simp+
  from identification_lead_fields[OF run m(1)] v(1,4)
  have a: "title (hd acme_citation_leads) = ''Researcher''"
    by auto
  from identification_lead_fields[OF run m(2)] v set_order_ok_acme
  have b: "capitalized_pair ''Jane Doe''"
    by auto
  from identification_lead_fields[OF chatty cm] cv
  have c: "JStr ''Speaker U'' \<in> set (map JStr speakers21)"
    by auto
  from run m v chatty cv a b c set_order_ok_acme show ?thesis by simp
qed

text \<open>
  C5 as stated fails: in the world \<open>sloppy\<close> the only author's affiliation is
  \<open>, Boston, MA\<close> and the model returns the list of one empty string; the stage returns a
  citation-derived lead whose company is the empty string and a conference-derived lead whose
  name is the empty string.
\<close>

theorem identification_empty_fields:
  "identification sloppy initial
     = (Inr [\<lparr>name = JStr ''Ann Roe'', title = ''Researcher'', company = '''',
              location = JStr ''Boston, MA'', source = ''PubMed'',
              has_recent_paper = Some True, linkedin = None, email = None, score = None\<rparr>,
             \<lparr>name = JStr '''', title = ''Speaker'', company = ''Unknown'',
              location = JStr ''Unknown'', source = ''Conference'',
              has_recent_paper = Some False, linkedin = None, email = None, score = None\<rparr>],
        \<lparr>quota_exceeded = False, searches = 1, events = [Call Names]\<rparr>)"
  by code_simp

text \<open>
  C7 fails on the extraction path: the decoded list of names is used as it is, without a cap.
  In the world \<open>chatty\<close> the model returns 21 names and the conference branch emits 21 leads
  (the identification stage returns them after the two citation-derived leads).
\<close>

theorem conference_leads_uncapped:
  "fst (scrape_conference_attendees chatty initial) = Inr (map attendee (map JStr speakers21))
   \<and> length (map attendee (map JStr speakers21)) = 21
   \<and> fst (identification chatty initial)
       = Inr (acme_citation_leads
              @ map (\<lambda>n. (attendee (JStr n))\<lparr>has_recent_paper := Some False\<rparr>) speakers21)"
  by code_simp

section \<open>Further properties of the identification stage\<close>

lemma heuristic_names_distinct:
  assumes "\<not> truthy v" and "heuristic_names w v snippets = Inr names"
      and "set_order_ok w"
  shows "\<exists>ns. names = JArr (map JStr ns) \<and> distinct ns"
proof (cases v)
  case (JArr xs)
  let ?all = "concat (map findall_names snippets)"
  have "distinct (take 20 (set_order w ?all))"
    using assms(3) by (simp add: set_order_ok_def)
  with JArr assms(2) show ?thesis
    by (intro exI[of _ "take 20 (set_order w ?all)"]) (auto simp: heuristic_names_def)
next
  case (JStr s)
  with assms(2) have "names = JArr (map JStr [])"
    by (auto simp: heuristic_names_def split: if_splits)
  then show ?thesis by (intro exI[of _ "[]"]) simp
next
  case (JObj kvs)
  with assms(2) have "names = JArr (map JStr [])"
    by (auto simp: heuristic_names_def split: if_splits)
  then show ?thesis by (intro exI[of _ "[]"]) simp
qed (use assms(2) in \<open>auto simp: heuristic_names_def split: if_splits\<close>)

lemma fallback_names_distinct:
  assumes "scrape_conference_attendees w st = (Inr conf_leads, st')"
      and "extracted_names w st = Some v" and "\<not> truthy v" and "set_order_ok w"
  shows "distinct (map name conf_leads)"
proof -
  from scrape_cases[OF assms(1)] assms(2,3) obtain names ns snippets where
    h: "heuristic_names w v snippets = Inr names" and
    i: "iterate names = Inr ns" and c: "conf_leads = map attendee ns"
    by auto
  from heuristic_names_distinct[OF assms(3) h assms(4)] obtain ss where
    ss: "names = JArr (map JStr ss)" "distinct ss"
    by blast
  with i have "ns = map JStr ss" by simp
  with c have "map name conf_leads = map JStr ss"
    by (simp add: attendee_def comp_def)
  with ss(2) show ?thesis by (simp add: distinct_map inj_on_def)
qed

lemma set_order_ok_crowded: "set_order_ok crowded"
  by (simp add: set_order_ok_def crowded_def throttled_def acme_def)

text \<open>
  Conference leads and the fallback path. Every lead that \<open>scrape_conference_attendees\<close> returns has the
  source \<open>Conference\<close>, the title \<open>Speaker\<close>, the company and the location \<open>Unknown\<close> and no
  other key but its name; and when the extraction block yields no names, the leads come from
  the pattern's matches: at most 20 of them, under distinct names.
\<close>

theorem conference_fallback_capped:
  assumes "scrape_conference_attendees w st = (Inr conf_leads, st')"
  shows "(\<forall>lead \<in> set conf_leads.
            source lead = ''Conference'' \<and> title lead = ''Speaker''
          \<and> company lead = ''Unknown'' \<and> location lead = JStr ''Unknown''
          \<and> has_recent_paper lead = None \<and> linkedin lead = None \<and> email lead = None
          \<and> score lead = None)
       \<and> (\<forall>v. extracted_names w st = Some v \<and> \<not> truthy v \<and> set_order_ok w
              \<longrightarrow> length conf_leads \<le> 20 \<and> distinct (map name conf_leads))"
  using conference_lead_fields[OF assms] fallback_names[OF assms]
    fallback_names_distinct[OF assms]
  by blast

theorem conference_fallback_capped_witness:
  "scrape_conference_attendees crowded initial
     = (Inr (map (\<lambda>n. attendee (JStr n)) (take 20 (remdups crowd21))),
        \<lparr>quota_exceeded = True, searches = 1, events = [Call Names, Exhausted]\<rparr>)
   \<and> length crowd21 = 21
   \<and> extracted_names crowded initial = Some (JArr []) \<and> \<not> truthy (JArr [])
   \<and> set_order_ok crowded
   \<and> length (map (\<lambda>n. attendee (JStr n)) (take 20 (remdups crowd21))) = 20"
proof -
  have run: "scrape_conference_attendees crowded initial
     = (Inr (map (\<lambda>n. attendee (JStr n)) (take 20 (remdups crowd21))),
        \<lparr>quota_exceeded = True, searches = 1, events = [Call Names, Exhausted]\<rparr>)"
    by code_simp
  have v: "length crowd21 = 21" "extracted_names crowded initial = Some (JArr [])"
      "\<not> truthy (JArr [])"
      "length (map (\<lambda>n. attendee (JStr n)) (take 20 (remdups crowd21))) = 20"
    by code_simp+
  from conference_fallback_capped[OF run] v set_order_ok_crowded
  have "length (map (\<lambda>n. attendee (JStr n)) (take 20 (remdups crowd21))) \<le> 20"
    by blast
  with run v set_order_ok_crowded show ?thesis by simp
qed

text \<open>
  Scenario A of the specification: a citation with two well-formed authors, one with the
  affiliation \<open>Acme Inc, Boston, MA\<close>, gives two leads, one with the location
  \<open>Boston, MA\<close>; an author entry without a family name gives none.
\<close>

theorem scenario_two_authors:
  "fetch_paper_details acme ''38000001''
     = Inr \<lparr>pmid = ''38000001'', paper_title = ''Hepatic spheroids for DILI'',
            authors =
              [\<lparr>author_name = ''Ann Roe'', affiliation = ''Acme Inc, Boston, MA'',
                author_location = ''Boston, MA''\<rparr>,
               \<lparr>author_name = ''Bob Poe'', affiliation = '''',
                author_location = ''Unknown''\<rparr>]\<rparr>
   \<and> citation_leads acme [] [''38000001''] = Inr acme_citation_leads
   \<and> map location acme_citation_leads = [JStr ''Boston, MA'', JStr ''Unknown'']"
  by code_simp

end
